theory Spec2Isabelle
  imports Complex_Main "HOL-Library.Sublist" "HOL-Library.Multiset" "HOL-Library.List_Lexorder"
begin

section \<open>JavaScript values used by the two widgets\<close>

text \<open>
  Both widgets are browser scripts. The parts of the language they rely on are modelled
  here: strings as sequences of UTF-16 code units, numbers as binary64 values with
  \<open>NaN\<close> and the two infinities, truthiness, \<open>trim\<close>, and the two
  string-to-number conversions \<open>Number(s)\<close> (behind \<open>isNaN\<close>) and
  \<open>parseFloat(s)\<close>.

  The methods \<open>toLowerCase\<close>, \<open>toUpperCase\<close> and \<open>localeCompare\<close> follow the
  Unicode tables and the locale of the browser. They are not spelled out: each function
  that calls one of them takes it as an argument, and every theorem holds for whatever
  the browser supplies.
\<close>

subsection \<open>Strings\<close>

type_synonym jsstring = "int list"

text \<open>The code units of a text written in ASCII.\<close>

definition str :: "string \<Rightarrow> jsstring" where
  "str s = map of_char s"

text \<open>
  White space and line terminators of the language: TAB, LF, VT, FF, CR, SPACE, NBSP,
  the space separators U+1680, U+2000 to U+200A, U+202F, U+205F, U+3000, the line and
  paragraph separators U+2028 and U+2029, and the byte order mark U+FEFF. These are the
  characters that \<open>trim\<close>, \<open>Number\<close> and \<open>parseFloat\<close> strip.
\<close>

definition is_space :: "int \<Rightarrow> bool" where
  "is_space c =
     (c \<in> set [9, 10, 11, 12, 13, 32, 160, 5760, 8192, 8193, 8194, 8195, 8196, 8197, 8198,
               8199, 8200, 8201, 8202, 8232, 8233, 8239, 8287, 12288, 65279])"

definition trim :: "jsstring \<Rightarrow> jsstring" where
  "trim s = rev (dropWhile is_space (rev (dropWhile is_space s)))"

subsection \<open>Numbers\<close>

text \<open>
  A number is \<open>NaN\<close>, an infinity, or a finite binary64 value, kept as the rational it
  denotes. The two zeros are one value: the code modelled here only compares, adds and
  prints numbers and tests them for truth, and none of these tells them apart.
\<close>

datatype jsnum = NaN | NegInf | Fin rat | PosInf

fun js_lt :: "jsnum \<Rightarrow> jsnum \<Rightarrow> bool" where
  "js_lt NaN _ = False"
| "js_lt _ NaN = False"
| "js_lt NegInf NegInf = False"
| "js_lt NegInf _ = True"
| "js_lt (Fin a) (Fin b) = (a < b)"
| "js_lt (Fin a) PosInf = True"
| "js_lt (Fin a) NegInf = False"
| "js_lt PosInf _ = False"

definition js_gt :: "jsnum \<Rightarrow> jsnum \<Rightarrow> bool" where
  "js_gt a b = js_lt b a"

definition js_le :: "jsnum \<Rightarrow> jsnum \<Rightarrow> bool" where
  "js_le a b = (a \<noteq> NaN \<and> b \<noteq> NaN \<and> \<not> js_lt b a)"

text \<open>
  Rounding a real value to binary64: to the nearest value with 53 significant bits and an
  exponent of at least \<open>-1074\<close>, to the one with an even last bit on a tie, and to an
  infinity from \<open>2^1024 - 2^970\<close> on.
\<close>

definition pow2 :: "int \<Rightarrow> rat" where
  "pow2 e = (if 0 \<le> e then 2 ^ nat e else 1 / 2 ^ nat (- e))"

fun bitlen :: "int \<Rightarrow> int" where
  "bitlen n = (if n \<le> 0 then 0 else 1 + bitlen (n div 2))"

declare bitlen.simps [simp del]

text \<open>The exponent \<open>e\<close> with \<open>2^e \<le> a < 2^(e+1)\<close>, for a positive \<open>a\<close>.\<close>

definition binary_exponent :: "rat \<Rightarrow> int" where
  "binary_exponent a =
     (let (p, q) = quotient_of a; d = bitlen p - bitlen q
      in if pow2 d \<le> a then d else d - 1)"

definition round_half_even :: "rat \<Rightarrow> int" where
  "round_half_even x =
     (let n = \<lfloor>x\<rfloor>; d = x - of_int n
      in if d < 1 / 2 then n else if 1 / 2 < d then n + 1 else if even n then n else n + 1)"

definition fl :: "rat \<Rightarrow> jsnum" where
  "fl r =
     (if r = 0 then Fin 0
      else
        let a = \<bar>r\<bar>;
            e = binary_exponent a;
            q = max (e - 52) (- 1074);
            m = round_half_even (a / pow2 q);
            v = of_int m * pow2 q
        in if 1024 \<le> e \<or> (e = 1023 \<and> m = 2 ^ 53) then (if r < 0 then NegInf else PosInf)
           else Fin (if r < 0 then - v else v))"

fun js_add :: "jsnum \<Rightarrow> jsnum \<Rightarrow> jsnum" where
  "js_add NaN _ = NaN"
| "js_add _ NaN = NaN"
| "js_add (Fin a) (Fin b) = fl (a + b)"
| "js_add PosInf NegInf = NaN"
| "js_add NegInf PosInf = NaN"
| "js_add PosInf _ = PosInf"
| "js_add _ PosInf = PosInf"
| "js_add NegInf _ = NegInf"
| "js_add _ NegInf = NegInf"

text \<open>
  A JSON scalar as the backend sends it, or \<open>undefined\<close> for a property that is absent.
  A number carries its binary64 value.
\<close>

datatype jsval = JUndefined | JNull | JBool bool | JNum rat | JStr jsstring

fun truthy :: "jsval \<Rightarrow> bool" where
  "truthy JUndefined = False"
| "truthy JNull = False"
| "truthy (JBool b) = b"
| "truthy (JNum r) = (r \<noteq> 0)"
| "truthy (JStr s) = (s \<noteq> [])"

definition is_text :: "jsval \<Rightarrow> bool" where
  "is_text v = (case v of JStr _ \<Rightarrow> True | _ \<Rightarrow> False)"

subsection \<open>Reading a number from a string\<close>

definition is_digit :: "int \<Rightarrow> bool" where
  "is_digit c = (48 \<le> c \<and> c \<le> 57)"

text \<open>The value of a digit \<open>0\<close> to \<open>9\<close>, \<open>a\<close> to \<open>f\<close> or \<open>A\<close> to \<open>F\<close>.\<close>

definition digit_val :: "int \<Rightarrow> int" where
  "digit_val c =
     (if 48 \<le> c \<and> c \<le> 57 then c - 48
      else if 97 \<le> c \<and> c \<le> 102 then c - 87
      else if 65 \<le> c \<and> c \<le> 70 then c - 55
      else 0)"

definition digits_value :: "int \<Rightarrow> jsstring \<Rightarrow> int" where
  "digits_value base ds = foldl (\<lambda>n c. base * n + digit_val c) 0 ds"

definition pow10 :: "int \<Rightarrow> rat" where
  "pow10 e = (if 0 \<le> e then 10 ^ nat e else 1 / 10 ^ nat (- e))"

definition scan_sign :: "jsstring \<Rightarrow> bool \<times> jsstring" where
  "scan_sign s =
     (case s of
        c # r \<Rightarrow> if c = 45 then (True, r) else if c = 43 then (False, r) else (False, s)
      | [] \<Rightarrow> (False, s))"

text \<open>The exponent part \<open>e\<close> or \<open>E\<close>, sign, digits; it is read only when it is complete.\<close>

definition scan_exponent :: "jsstring \<Rightarrow> int \<times> jsstring" where
  "scan_exponent s =
     (case s of
        c # r \<Rightarrow>
          if c = 101 \<or> c = 69 then
            (let (neg, t) = scan_sign r; ds = takeWhile is_digit t
             in if ds = [] then (0, s)
                else ((if neg then - digits_value 10 ds else digits_value 10 ds),
                      dropWhile is_digit t))
          else (0, s)
      | [] \<Rightarrow> (0, s))"

text \<open>
  The mathematical value of a decimal literal: an infinity with its sign (\<open>True\<close> for
  minus), or the exact rational that the digits denote.
\<close>

datatype literal_value = LInfinity bool | LExact rat

fun number_of :: "literal_value \<Rightarrow> jsnum" where
  "number_of (LInfinity neg) = (if neg then NegInf else PosInf)"
| "number_of (LExact r) = fl r"

text \<open>
  The longest prefix of \<open>s\<close> that is a decimal literal of the language
  (\<open>StrDecimalLiteral\<close>: a sign, then \<open>Infinity\<close> or digits with an optional
  fraction and exponent), with its value and the rest of the string. The point is 46.
\<close>

definition scan_decimal :: "jsstring \<Rightarrow> (literal_value \<times> jsstring) option" where
  "scan_decimal s =
     (let (neg, s1) = scan_sign s in
      if take 8 s1 = str ''Infinity'' then Some (LInfinity neg, drop 8 s1)
      else
        let ip = takeWhile is_digit s1;
            r1 = dropWhile is_digit s1;
            (fp, r2) =
              (case r1 of
                 c # t \<Rightarrow>
                   if c = 46 \<and> \<not> (ip = [] \<and> takeWhile is_digit t = [])
                   then (takeWhile is_digit t, dropWhile is_digit t)
                   else ([], r1)
               | [] \<Rightarrow> ([], r1))
        in if ip = [] \<and> fp = [] then None
           else
             let (ex, r3) = scan_exponent r2;
                 m = of_int (digits_value 10 ip) + of_int (digits_value 10 fp) / 10 ^ length fp;
                 v = m * pow10 ex
             in Some (LExact (if neg then - v else v), r3))"

text \<open>\<open>parseFloat(s)\<close>: leading white space is skipped, what follows the literal is ignored.\<close>

definition parseFloat :: "jsstring \<Rightarrow> jsnum" where
  "parseFloat s =
     (case scan_decimal (dropWhile is_space s) of None \<Rightarrow> NaN | Some (v, _) \<Rightarrow> number_of v)"

text \<open>
  A literal with a radix prefix: \<open>0x\<close>, \<open>0o\<close>, \<open>0b\<close> in either case and at least one
  digit of that radix.
\<close>

definition radix_literal :: "jsstring \<Rightarrow> int option" where
  "radix_literal s =
     (case s of
        z # p # ds \<Rightarrow>
          if z = 48 \<and> ds \<noteq> [] then
            (if (p = 120 \<or> p = 88)
                \<and> list_all (\<lambda>c. is_digit c \<or> (97 \<le> c \<and> c \<le> 102) \<or> (65 \<le> c \<and> c \<le> 70)) ds
               then Some (digits_value 16 ds)
             else if (p = 111 \<or> p = 79) \<and> list_all (\<lambda>c. 48 \<le> c \<and> c \<le> 55) ds
               then Some (digits_value 8 ds)
             else if (p = 98 \<or> p = 66) \<and> list_all (\<lambda>c. c = 48 \<or> c = 49) ds
               then Some (digits_value 2 ds)
             else None)
          else None
      | _ \<Rightarrow> None)"

text \<open>\<open>Number(s)\<close>: the whole trimmed string has to be a numeric literal; the empty string is 0.\<close>

definition to_number :: "jsstring \<Rightarrow> jsnum" where
  "to_number s =
     (let t = trim s in
      if t = [] then Fin 0
      else case radix_literal t of
             Some n \<Rightarrow> fl (of_int n)
           | None \<Rightarrow> (case scan_decimal t of Some (v, []) \<Rightarrow> number_of v | _ \<Rightarrow> NaN))"

definition isNaN :: "jsstring \<Rightarrow> bool" where
  "isNaN s = (to_number s = NaN)"

subsection \<open>Writing a number with two decimals\<close>

text \<open>The decimal digits of a natural number.\<close>

fun digits_of :: "int \<Rightarrow> jsstring" where
  "digits_of n = (if n < 10 then [48 + n] else digits_of (n div 10) @ [48 + n mod 10])"

declare digits_of.simps [simp del]

text \<open>
  \<open>x.toFixed(2)\<close>: the nearest multiple of 1/100 to the binary64 value, the larger one
  on a tie, written with two fraction digits. From \<open>10^21\<close> on the method returns the
  default text of the number (an exponent form such as \<open>1e+21\<close>), which the library
  function \<open>Number::toString\<close> produces; it is the argument \<open>number_text\<close>, applied
  to the magnitude.
\<close>

definition to_fixed2 :: "(rat \<Rightarrow> jsstring) \<Rightarrow> jsnum \<Rightarrow> jsval" where
  "to_fixed2 number_text x =
     (case x of
        NaN \<Rightarrow> JStr (str ''NaN'')
      | PosInf \<Rightarrow> JStr (str ''Infinity'')
      | NegInf \<Rightarrow> JStr (str ''-Infinity'')
      | Fin r \<Rightarrow>
          if 10 ^ 21 \<le> \<bar>r\<bar> then JStr ((if r < 0 then str ''-'' else []) @ number_text \<bar>r\<bar>)
          else
            let n = \<lfloor>\<bar>r\<bar> * 100 + 1 / 2\<rfloor>;
                m = digits_of n;
                m' = (if length m \<le> 2 then replicate (3 - length m) 48 @ m else m);
                k = length m'
            in JStr ((if r < 0 then str ''-'' else []) @ take (k - 2) m' @ str ''.'' @ drop (k - 2) m'))"

text \<open>
  \<open>parseFloat(v)\<close> for a value that need not be a string: it parses the text of \<open>v\<close>.
  The text of a number reads back as that number; the texts of \<open>true\<close>, \<open>null\<close>
  and \<open>undefined\<close> are no numbers.
\<close>

definition parseFloat_val :: "jsval \<Rightarrow> jsnum" where
  "parseFloat_val v = (case v of JStr s \<Rightarrow> parseFloat s | JNum r \<Rightarrow> fl r | _ \<Rightarrow> NaN)"

definition js_or :: "jsval \<Rightarrow> jsval \<Rightarrow> jsval" where
  "js_or a b = (if truthy a then a else b)"

section \<open>Fee calculator\<close>

text \<open>
  The script \<open>scriptd5f7.js\<close>. The form has three fields; clicking the calculate button
  validates them, applies the per-currency ceiling and, when everything passes, posts one
  request. The request's URL and nonce come from the page and are left out. The values
  of the fields are texts of the page; the ids and messages that the script writes are
  its own constants and are kept as they stand in the script.
\<close>

record form =
  amount_field :: jsstring
  currency_field :: jsstring
  type_field :: jsstring

text \<open>
  \<open>typeMap[type]\<close> reads an object literal: besides the two own keys, the lookup finds
  the members every object inherits from \<open>Object.prototype\<close>, which are functions or
  objects and therefore truthy.
\<close>

datatype api_code = Code jsstring | ProtoMember jsstring

definition object_prototype_keys :: "jsstring list" where
  "object_prototype_keys =
     map str
       [''constructor'', ''hasOwnProperty'', ''isPrototypeOf'', ''propertyIsEnumerable'',
        ''toLocaleString'', ''toString'', ''valueOf'', ''__proto__'', ''__defineGetter__'',
        ''__defineSetter__'', ''__lookupGetter__'', ''__lookupSetter__'']"

definition typeMap :: "jsstring \<Rightarrow> api_code option" where
  "typeMap k =
     (case map_of [(str ''sendmoney'', str ''SENDMONEY''), (str ''SENDMONEY'', str ''SENDMONEY'')] k of
        Some v \<Rightarrow> Some (Code v)
      | None \<Rightarrow> if k \<in> set object_prototype_keys then Some (ProtoMember k) else None)"

text \<open>
  \<open>typeMap[type] || type.toUpperCase()\<close>, with the browser's \<open>toUpperCase\<close> as the
  argument \<open>toUpperCase\<close>.
\<close>

definition convertTransactionType :: "(jsstring \<Rightarrow> jsstring) \<Rightarrow> jsstring \<Rightarrow> api_code" where
  "convertTransactionType toUpperCase type =
     (case typeMap type of
        Some (Code v) \<Rightarrow> if v \<noteq> [] then Code v else Code (toUpperCase type)
      | Some (ProtoMember k) \<Rightarrow> ProtoMember k
      | None \<Rightarrow> Code (toUpperCase type))"

record request =
  rq_action :: string
  rq_amount :: jsstring
  rq_currency :: jsstring
  rq_transactionType :: api_code

record outcome =
  errors :: "(string \<times> string) list"
  warning :: "string option"
  limit_exceeded :: bool
  request :: "request option"

text \<open>
  Modelled from the spec: the markup of the form is not among the sources. Following the
  field-specific messages of the specification, each field sits in a form group of its
  own, so the error texts that are siblings of a field are the ones shown for that field.
  The list holds the error texts on the page with the field each one follows.
\<close>

definition showFieldError :: "string \<Rightarrow> string \<Rightarrow> (string \<times> string) list \<Rightarrow> (string \<times> string) list" where
  "showFieldError fieldId message errs =
     (if list_ex (\<lambda>e. fst e = fieldId) errs then errs else errs @ [(fieldId, message)])"

text \<open>Lines 15 to 40 of the click handler: the error texts and the flag \<open>isValid\<close>.\<close>

definition basic_validation :: "jsstring \<Rightarrow> jsstring \<Rightarrow> jsstring \<Rightarrow> (string \<times> string) list \<times> bool" where
  "basic_validation amount currency transactionType =
     (let (e1, v1) =
            (if amount = [] then
               (showFieldError ''ecocash-amount'' ''Please enter an amount'' [], False)
             else if isNaN amount then
               (showFieldError ''ecocash-amount'' ''Amount must be a number'' [], False)
             else if js_le (parseFloat amount) (Fin 0) then
               (showFieldError ''ecocash-amount'' ''Amount must be greater than zero'' [], False)
             else ([], True));
          (e2, v2) =
            (if currency = [] then
               (showFieldError ''ecocash-currency'' ''Please select a currency'' e1, False)
             else (e1, v1));
          (e3, v3) =
            (if transactionType = [] then
               (showFieldError ''ecocash-transaction-type'' ''Please select a transaction type'' e2, False)
             else (e2, v2))
      in (e3, v3))"

definition calculate_click :: "(jsstring \<Rightarrow> jsstring) \<Rightarrow> form \<Rightarrow> outcome" where
  "calculate_click toUpperCase f =
     (let amount = trim (amount_field f);
          currency = currency_field f;
          transactionType = type_field f;
          (errs, isValid) = basic_validation amount currency transactionType
      in if \<not> isValid then
           \<lparr>errors = errs, warning = None, limit_exceeded = False, request = None\<rparr>
         else if currency = str ''USD'' \<and> js_gt (parseFloat amount) (Fin 500) then
           \<lparr>errors = showFieldError ''ecocash-amount'' ''USD transactions cannot exceed $500'' errs,
            warning = Some ''USD transactions cannot exceed $500'',
            limit_exceeded = True, request = None\<rparr>
         else if currency = str ''ZWG'' \<and> js_gt (parseFloat amount) (Fin 8000) then
           \<lparr>errors = showFieldError ''ecocash-amount'' ''ZWG transactions cannot exceed 8000'' errs,
            warning = Some ''ZWG transactions cannot exceed 8000'',
            limit_exceeded = True, request = None\<rparr>
         else
           \<lparr>errors = errs, warning = None, limit_exceeded = False,
            request = Some \<lparr>rq_action = ''ecocash_calculate'', rq_amount = amount,
                            rq_currency = currency,
                            rq_transactionType = convertTransactionType toUpperCase transactionType\<rparr>\<rparr>)"

text \<open>
  The handler of \<open>input\<close> and \<open>change\<close> on the amount and currency fields: the warning
  text it leaves and whether the field carries the class \<open>limit-exceeded\<close>.
\<close>

definition amount_input_change :: "jsstring \<Rightarrow> jsstring \<Rightarrow> string option \<times> bool" where
  "amount_input_change amount_value currency =
     (let amount = parseFloat amount_value
      in if amount = NaN then (None, False)
         else if currency = str ''USD'' \<and> js_gt amount (Fin 500) then
           (Some ''USD transactions cannot exceed $500'', True)
         else if currency = str ''ZWG'' \<and> js_gt amount (Fin 8000) then
           (Some ''ZWG transactions cannot exceed 8000'', True)
         else (None, False))"

text \<open>\<open>showSuccess\<close>: the five values of the fee breakdown and the currency symbol.\<close>

record api_response =
  amount :: jsval
  serviceCharge :: jsval
  taxAmount :: jsval
  totalTariff :: jsval
  totalAmount :: jsval

record breakdown =
  shown_symbol :: string
  shown_amount :: jsval
  shown_serviceCharge :: jsval
  shown_taxAmount :: jsval
  shown_totalTariff :: jsval
  shown_totalAmount :: jsval

definition showSuccess :: "(rat \<Rightarrow> jsstring) \<Rightarrow> api_response \<Rightarrow> jsstring \<Rightarrow> jsstring \<Rightarrow> breakdown" where
  "showSuccess number_text apiResponse currency amount_value =
     (let toFixed = to_fixed2 number_text;
          amount' = js_or (amount apiResponse) (JStr amount_value);
          serviceCharge' = js_or (serviceCharge apiResponse) (JStr (str ''0.00''));
          taxAmount' = js_or (taxAmount apiResponse) (JStr (str ''0.00''));
          totalTariff' = js_or (totalTariff apiResponse) (JStr (str ''0.00''));
          totalAmount' =
            (if truthy (totalAmount apiResponse) then totalAmount apiResponse
             else toFixed (js_add (parseFloat_val amount') (parseFloat_val totalTariff')));
          currencySymbol = (if currency = str ''USD'' then ''$'' else [])
      in \<lparr>shown_symbol = currencySymbol,
          shown_amount = toFixed (parseFloat_val amount'),
          shown_serviceCharge = toFixed (parseFloat_val serviceCharge'),
          shown_taxAmount = toFixed (parseFloat_val taxAmount'),
          shown_totalTariff = toFixed (parseFloat_val totalTariff'),
          shown_totalAmount = toFixed (parseFloat_val totalAmount')\<rparr>)"

section \<open>Agent locator\<close>

text \<open>
  The class \<open>EcocashLocator\<close>. An agent is an object of the backend's JSON answer. The
  id, the five texts that the search reads and the coordinates are any scalar: the code
  tests them for truth and calls string methods on them, which raises when the value is
  truthy and not a text. The distance is a number, or \<open>None\<close> when it is absent or
  \<open>null\<close>.
\<close>

record agent =
  agent_id :: jsval
  representative :: jsval
  address :: jsval
  city :: jsval
  province :: jsval
  msisdn :: jsval
  latitude :: jsval
  longitude :: jsval
  distance :: "rat option"

record locator_state =
  agents :: "agent list"
  filteredAgents :: "agent list"
  isLoading :: bool

definition initial_state :: locator_state where
  "initial_state = \<lparr>agents = [], filteredAgents = [], isLoading = False\<rparr>"

text \<open>An exception: a \<open>TypeError\<close> of the language, or an \<open>Error\<close> with its message.\<close>

datatype error = TypeError | Error jsstring

text \<open>
  What the locator takes from the browser and its libraries: the two string methods with
  their Unicode and locale tables, and the calls into jQuery and Leaflet that put the
  cards, the markers and the options of the selects on the page. \<open>draws\<close> and
  \<open>fills\<close> tell which exception, if any, these calls raise for the agents they are
  given (Leaflet, for one, raises on a coordinate that is no number).
\<close>

record browser =
  toLowerCase :: "jsstring \<Rightarrow> jsstring"
  localeCompare :: "jsstring \<Rightarrow> jsval \<Rightarrow> int"
  draws :: "agent list \<Rightarrow> error option"
  fills :: "agent list \<Rightarrow> error option"

datatype event =
    ShowMessage jsstring string
  | ConsoleWarn string
  | ConsoleError string
  | ShowLoading bool
  | UpdateDisplay
  | PopulateFilters
  | Announce jsstring

text \<open>
  \<open>getInitials(name)\<close>, as far as it can raise: a falsy name returns at once, a text is
  trimmed and split, and any other value has no method \<open>trim\<close>.
\<close>

definition getInitials :: "jsval \<Rightarrow> error option" where
  "getInitials name = (if truthy name \<and> \<not> is_text name then Some TypeError else None)"

text \<open>
  \<open>updateDisplay\<close>: \<open>renderAgentCards\<close> builds a card for every filtered agent, which
  calls \<open>getInitials\<close> on its name; the cards and the markers are put on the page by
  the libraries. The result is the exception that ends the call, if there is one. When
  both \<open>getInitials\<close> and a library call raise, the one of \<open>getInitials\<close> is
  given: the callers treat every exception alike.
\<close>

definition updateDisplay :: "browser \<Rightarrow> locator_state \<Rightarrow> error option" where
  "updateDisplay b st =
     (case List.map_filter (\<lambda>a. getInitials (representative a)) (filteredAgents st) of
        e # _ \<Rightarrow> Some e
      | [] \<Rightarrow> draws b (filteredAgents st))"

text \<open>\<open>populateFilters\<close> reads the provinces and cities of the stored agents and fills the two selects.\<close>

definition populateFilters :: "browser \<Rightarrow> locator_state \<Rightarrow> error option" where
  "populateFilters b st = fills b (agents st)"

text \<open>
  The value found under \<open>agents\<close> in an answer: falsy (absent, \<open>null\<close>, 0, the empty
  string), truthy but not an array (an object, a text), or an array. An element of the
  array is an agent object, or \<open>None\<close> for \<open>null\<close> and for a scalar, which has none
  of the properties read.
\<close>

datatype agents_payload = Falsy | NonArray | AgentArray "agent option list"

text \<open>
  \<open>processAgentsData\<close>: the state it leaves, the events up to its end, and the
  exception that ends it, if there is one. The two lists are written before the display
  is refreshed, so they stay written when the refresh raises.
\<close>

definition processAgentsData ::
    "browser \<Rightarrow> agents_payload \<Rightarrow> locator_state \<Rightarrow> locator_state \<times> event list \<times> error option" where
  "processAgentsData b newAgents st =
     (case newAgents of
        AgentArray entries \<Rightarrow>
          (let validNewAgents =
                 List.map_filter
                   (\<lambda>e. case e of
                          None \<Rightarrow> None
                        | Some a \<Rightarrow>
                            if truthy (agent_id a) \<and> truthy (representative a)
                               \<and> truthy (latitude a) \<and> truthy (longitude a)
                               \<and> \<not> list_ex (\<lambda>existingAgent. agent_id existingAgent = agent_id a) (agents st)
                            then Some a else None)
                   entries
           in if validNewAgents \<noteq> [] then
                (let agents' = agents st @ validNewAgents;
                     st' = st\<lparr>agents := agents', filteredAgents := agents'\<rparr>
                 in case updateDisplay b st' of
                      Some e \<Rightarrow> (st', [], Some e)
                    | None \<Rightarrow>
                        (case populateFilters b st' of
                           Some e \<Rightarrow> (st', [UpdateDisplay], Some e)
                         | None \<Rightarrow>
                             (st',
                              [UpdateDisplay, PopulateFilters] @
                              (if length agents' = length validNewAgents
                               then [ShowMessage (str ''Found '' @ digits_of (int (length agents'))
                                                  @ str '' EcoCash agents'') ''success'']
                               else []),
                              None)))
              else (st, [], None))
      | _ \<Rightarrow> (st, [ConsoleWarn ''Invalid agents data received''], None))"

subsection \<open>Loading\<close>

record response_data =
  data_agents :: agents_payload
  data_message :: "jsstring option"

text \<open>
  The answer of the request: \<open>NoResponse\<close> is a body that is \<open>null\<close>, on which
  reading a property raises; \<open>Response success data\<close> carries the truthiness of
  \<open>success\<close> and the object \<open>data\<close> when it is truthy. A rejected request hands the
  handler the status of the transport (0 when the network failed) and the message of the
  error body when there is one.
\<close>

datatype response = NoResponse | Response bool "response_data option"

datatype ajax_result = Rejected int "jsstring option" | Resolved response

text \<open>What the \<open>catch\<close> block receives: an exception raised in the \<open>try\<close> block, or the failed request.\<close>

datatype caught = Thrown error | Xhr int "jsstring option"

definition load_error_message :: "caught \<Rightarrow> jsstring" where
  "load_error_message err =
     str ''Failed to load agents. '' @
     (case err of
        Thrown _ \<Rightarrow> str ''Please try again later.''
      | Xhr status msg \<Rightarrow>
          if status = 0 then str ''Please check your internet connection.''
          else if 500 \<le> status then str ''Server error occurred.''
          else (case msg of
                  Some m \<Rightarrow> if m \<noteq> [] then m else str ''Please try again later.''
                | None \<Rightarrow> str ''Please try again later.''))"

text \<open>
  The body of the \<open>try\<close> block once the request has settled: the state it leaves, its
  events, and what it hands to the \<open>catch\<close> block, if anything.
\<close>

definition load_try ::
    "browser \<Rightarrow> ajax_result \<Rightarrow> locator_state \<Rightarrow> locator_state \<times> event list \<times> caught option" where
  "load_try b res st =
     (case res of
        Rejected status msg \<Rightarrow> (st, [], Some (Xhr status msg))
      | Resolved NoResponse \<Rightarrow> (st, [], Some (Thrown TypeError))
      | Resolved (Response success data) \<Rightarrow>
          (case data of
             Some d \<Rightarrow>
               if success \<and> data_agents d \<noteq> Falsy then
                 (let (st', ev, e) = processAgentsData b (data_agents d) st
                  in (st', ev, map_option Thrown e))
               else (st, [],
                     Some (Thrown (Error (case data_message d of
                                            Some m \<Rightarrow> if m \<noteq> [] then m else str ''Invalid response from server''
                                          | None \<Rightarrow> str ''Invalid response from server''))))
           | None \<Rightarrow> (st, [], Some (Thrown (Error (str ''Invalid response from server''))))))"

text \<open>
  \<open>loadAgents\<close>, from the call to the end of its \<open>finally\<close> block, for a request
  that settles with \<open>res\<close>. A call made while another load is running returns at once.
  The \<open>catch\<close> block reports what the \<open>try\<close> block raised and leaves the state as the
  \<open>try\<close> block left it.
\<close>

definition loadAgents :: "browser \<Rightarrow> ajax_result \<Rightarrow> bool \<Rightarrow> locator_state \<Rightarrow> locator_state \<times> event list" where
  "loadAgents b res showLoading st =
     (if isLoading st then (st, [])
      else
        let ev0 = (if showLoading then [ShowLoading True] else []);
            (st1, ev1, c) = load_try b res (st\<lparr>isLoading := True\<rparr>);
            ev2 = (case c of
                     Some err \<Rightarrow> [ConsoleError ''Failed to load agents:'',
                                  ShowMessage (load_error_message err) ''error'']
                   | None \<Rightarrow> [])
        in (st1\<lparr>isLoading := False\<rparr>,
            ev0 @ ev1 @ ev2 @ (if showLoading then [ShowLoading False] else [])))"

subsection \<open>Searching, filtering and sorting\<close>

text \<open>
  \<open>searchFields.some(field => field && field.toLowerCase().includes(searchTerm))\<close>: the
  fields are visited in order up to the first match; a falsy field is passed over, and a
  truthy field that is not a text has no method \<open>toLowerCase\<close>.
\<close>

fun some_field :: "(jsstring \<Rightarrow> jsstring) \<Rightarrow> jsstring \<Rightarrow> jsval list \<Rightarrow> error + bool" where
  "some_field lower searchTerm [] = Inr False"
| "some_field lower searchTerm (field # searchFields) =
     (if \<not> truthy field then some_field lower searchTerm searchFields
      else case field of
             JStr s \<Rightarrow> if sublist searchTerm (lower s) then Inr True
                       else some_field lower searchTerm searchFields
           | _ \<Rightarrow> Inl TypeError)"

definition searchInAgent :: "(jsstring \<Rightarrow> jsstring) \<Rightarrow> agent \<Rightarrow> jsstring \<Rightarrow> error + bool" where
  "searchInAgent lower a searchTerm =
     some_field lower searchTerm [representative a, address a, city a, province a, msisdn a]"

text \<open>\<open>Array.prototype.filter\<close> with a test that can raise: the first exception ends the call.\<close>

fun array_filter :: "('a \<Rightarrow> error + bool) \<Rightarrow> 'a list \<Rightarrow> error + 'a list" where
  "array_filter test [] = Inr []"
| "array_filter test (x # xs) =
     (case test x of
        Inl e \<Rightarrow> Inl e
      | Inr keep \<Rightarrow>
          (case array_filter test xs of
             Inl e \<Rightarrow> Inl e
           | Inr ys \<Rightarrow> Inr (if keep then x # ys else ys)))"

text \<open>
  \<open>Array.prototype.sort\<close> with a comparison function. For a consistent comparison
  function the language fixes the result: the elements in ascending order, equal ones in
  their former order. It is computed here by inserting from the right; an exception of
  the comparison function ends the sort. A positive result moves the first argument
  behind the second. The language leaves the order of the calls to the engine: here the
  element that stood earlier in the array is the first argument.
\<close>

fun insert_sorted :: "('a \<Rightarrow> 'a \<Rightarrow> error + rat) \<Rightarrow> 'a \<Rightarrow> 'a list \<Rightarrow> error + 'a list" where
  "insert_sorted cmp x [] = Inr [x]"
| "insert_sorted cmp x (y # ys) =
     (case cmp x y of
        Inl e \<Rightarrow> Inl e
      | Inr v \<Rightarrow>
          if 0 < v then (case insert_sorted cmp x ys of Inl e \<Rightarrow> Inl e | Inr zs \<Rightarrow> Inr (y # zs))
          else Inr (x # y # ys))"

fun array_sort :: "('a \<Rightarrow> 'a \<Rightarrow> error + rat) \<Rightarrow> 'a list \<Rightarrow> error + 'a list" where
  "array_sort cmp [] = Inr []"
| "array_sort cmp (x # xs) =
     (case array_sort cmp xs of Inl e \<Rightarrow> Inl e | Inr ys \<Rightarrow> insert_sorted cmp x ys)"

definition distance_or_default :: "agent \<Rightarrow> rat" where
  "distance_or_default a = (case distance a of Some d \<Rightarrow> if d \<noteq> 0 then d else 999999 | None \<Rightarrow> 999999)"

definition distance_cmp :: "agent \<Rightarrow> agent \<Rightarrow> error + rat" where
  "distance_cmp a b = Inr (distance_or_default a - distance_or_default b)"

text \<open>
  \<open>a.representative.localeCompare(b.representative)\<close>. The collation is the browser's
  and depends on the locale: it is the argument \<open>lc\<close>, which receives the second name
  as it is passed. Calling the method on a name that is not a text raises.
\<close>

definition name_cmp :: "(jsstring \<Rightarrow> jsval \<Rightarrow> int) \<Rightarrow> agent \<Rightarrow> agent \<Rightarrow> error + rat" where
  "name_cmp lc a b =
     (case representative a of
        JStr x \<Rightarrow> Inr (of_int (lc x (representative b)))
      | _ \<Rightarrow> Inl TypeError)"

definition sortAgents :: "(jsstring \<Rightarrow> jsval \<Rightarrow> int) \<Rightarrow> jsstring \<Rightarrow> agent list \<Rightarrow> error + agent list" where
  "sortAgents lc sortBy xs =
     (if sortBy = str ''distance'' then array_sort distance_cmp xs
      else array_sort (name_cmp lc) xs)"

text \<open>The values of the search box and of the three selects when a handler runs.\<close>

record controls =
  agent_search :: jsstring
  region_filter :: jsstring
  area_filter :: jsstring
  sort_filter :: jsstring

text \<open>
  \<open>applyCurrentFilters\<close>: the state it leaves and the exception that ends it, if there
  is one. The filtered list is assigned before it is sorted, so it stays assigned when
  the comparison raises. The order in which an interrupted sort leaves the list is the
  engine's; the list is taken as it was before the sort.
\<close>

definition applyCurrentFilters :: "browser \<Rightarrow> controls \<Rightarrow> locator_state \<Rightarrow> locator_state \<times> error option" where
  "applyCurrentFilters b ctl st =
     (let searchTerm = trim (toLowerCase b (agent_search ctl));
          selectedRegion = region_filter ctl;
          selectedArea = area_filter ctl;
          sortBy = sort_filter ctl
      in case array_filter
                (\<lambda>a. case (if searchTerm = [] then Inr True
                            else searchInAgent (toLowerCase b) a searchTerm) of
                        Inl e \<Rightarrow> Inl e
                      | Inr matchesSearch \<Rightarrow>
                          Inr (matchesSearch
                               \<and> (selectedRegion = [] \<or> province a = JStr selectedRegion)
                               \<and> (selectedArea = [] \<or> city a = JStr selectedArea)))
                (agents st) of
           Inl e \<Rightarrow> (st, Some e)
         | Inr filtered \<Rightarrow>
             (case sortAgents (localeCompare b) sortBy filtered of
                Inl e \<Rightarrow> (st\<lparr>filteredAgents := filtered\<rparr>, Some e)
              | Inr ys \<Rightarrow> (st\<lparr>filteredAgents := ys\<rparr>, None)))"

text \<open>
  The handlers: the state each one leaves, its events, and the exception that ends it, if
  there is one.
\<close>

definition applyFilters ::
    "browser \<Rightarrow> controls \<Rightarrow> locator_state \<Rightarrow> locator_state \<times> event list \<times> error option" where
  "applyFilters b ctl st =
     (case applyCurrentFilters b ctl st of
        (st', Some e) \<Rightarrow> (st', [], Some e)
      | (st', None) \<Rightarrow>
          (case updateDisplay b st' of
             Some e \<Rightarrow> (st', [], Some e)
           | None \<Rightarrow> (st', [UpdateDisplay], None)))"

definition performSearch ::
    "browser \<Rightarrow> controls \<Rightarrow> locator_state \<Rightarrow> locator_state \<times> event list \<times> error option" where
  "performSearch b ctl st =
     (let searchTerm = trim (toLowerCase b (agent_search ctl))
      in case (if searchTerm = [] then Inr (agents st)
               else array_filter (\<lambda>a. searchInAgent (toLowerCase b) a searchTerm) (agents st)) of
           Inl e \<Rightarrow> (st, [], Some e)
         | Inr found \<Rightarrow>
             (case applyCurrentFilters b ctl (st\<lparr>filteredAgents := found\<rparr>) of
                (st2, Some e) \<Rightarrow> (st2, [], Some e)
              | (st2, None) \<Rightarrow>
                  (case updateDisplay b st2 of
                     Some e \<Rightarrow> (st2, [], Some e)
                   | None \<Rightarrow>
                       (let count = int (length (filteredAgents st2))
                        in (st2,
                            [UpdateDisplay,
                             Announce (str ''Found '' @ digits_of count @ str '' agent''
                                       @ (if count \<noteq> 1 then str ''s'' else [])
                                       @ str '' matching '' @ [34] @ searchTerm @ [34])],
                            None)))))"

definition clearFilters :: "browser \<Rightarrow> locator_state \<Rightarrow> locator_state \<times> event list \<times> error option" where
  "clearFilters b st =
     (let st' = st\<lparr>filteredAgents := agents st\<rparr>
      in case updateDisplay b st' of
           Some e \<Rightarrow> (st', [], Some e)
         | None \<Rightarrow> (st', [UpdateDisplay, ShowMessage (str ''Filters cleared'') ''info''], None))"

subsection \<open>Runs of the locator\<close>

text \<open>The answers of successive loads, handed to \<open>processAgentsData\<close> one after the other.\<close>

definition process_all :: "browser \<Rightarrow> agents_payload list \<Rightarrow> locator_state \<Rightarrow> locator_state" where
  "process_all b ps st = foldl (\<lambda>s p. fst (processAgentsData b p s)) st ps"

text \<open>
  The states the locator can be in: it starts empty, and every handler leads from one
  state to the next, whether it returns or raises. A request is taken from its start to
  its end in one step.
\<close>

inductive reachable :: "browser \<Rightarrow> locator_state \<Rightarrow> bool" for b :: browser where
  init: "reachable b initial_state"
| load: "reachable b st \<Longrightarrow> reachable b (fst (loadAgents b res showLoading st))"
| process: "reachable b st \<Longrightarrow> reachable b (fst (processAgentsData b p st))"
| search: "reachable b st \<Longrightarrow> reachable b (fst (performSearch b ctl st))"
| filters: "reachable b st \<Longrightarrow> reachable b (fst (applyFilters b ctl st))"
| clear: "reachable b st \<Longrightarrow> reachable b (fst (clearFilters b st))"

section \<open>Notions of the specification\<close>

text \<open>The ceiling of a currency and the text shown when it is exceeded, as the specification gives them.\<close>

definition spec_ceiling :: "jsstring \<Rightarrow> rat" where
  "spec_ceiling currency = (if currency = str ''USD'' then 500 else 8000)"

definition spec_ceiling_message :: "jsstring \<Rightarrow> string" where
  "spec_ceiling_message currency =
     (if currency = str ''USD'' then ''USD transactions cannot exceed $500''
      else ''ZWG transactions cannot exceed 8000'')"

text \<open>
  The amount as it is written: the exact value of the decimal literal that the text of
  the amount field starts with, before any rounding.
\<close>

definition written_amount :: "jsstring \<Rightarrow> rat option" where
  "written_amount s =
     (case scan_decimal (dropWhile is_space s) of Some (LExact r, _) \<Rightarrow> Some r | _ \<Rightarrow> None)"

text \<open>A text with exactly two decimal places: an optional minus sign, digits, a point, two digits.\<close>

definition two_decimals :: "jsval \<Rightarrow> bool" where
  "two_decimals v =
     (case v of
        JStr s \<Rightarrow>
          (let t = (if take 1 s = str ''-'' then drop 1 s else s);
               ip = takeWhile is_digit t;
               fr = dropWhile is_digit t
           in ip \<noteq> [] \<and> length fr = 3 \<and> take 1 fr = str ''.'' \<and> list_all is_digit (drop 1 fr))
      | _ \<Rightarrow> False)"

definition finite_below_1e21 :: "jsnum \<Rightarrow> bool" where
  "finite_below_1e21 x = (case x of Fin r \<Rightarrow> \<bar>r\<bar> < 10 ^ 21 | _ \<Rightarrow> False)"

text \<open>An agent with the four fields the locator requires.\<close>

definition has_required_fields :: "agent \<Rightarrow> bool" where
  "has_required_fields a =
     (truthy (agent_id a) \<and> truthy (representative a)
      \<and> truthy (latitude a) \<and> truthy (longitude a))"

text \<open>The agents of an answer that have the required fields and an id not yet stored.\<close>

definition accepted_agents :: "agents_payload \<Rightarrow> locator_state \<Rightarrow> agent list" where
  "accepted_agents p st =
     (case p of
        AgentArray entries \<Rightarrow>
          filter (\<lambda>a. has_required_fields a \<and> agent_id a \<notin> agent_id ` set (agents st))
            (List.map_filter (\<lambda>e. e) entries)
      | _ \<Rightarrow> [])"

text \<open>The ids a single answer offers on entries that have the required fields.\<close>

definition offered_ids :: "agents_payload \<Rightarrow> jsval list" where
  "offered_ids p =
     (case p of
        AgentArray entries \<Rightarrow>
          map agent_id (filter has_required_fields (List.map_filter (\<lambda>e. e) entries))
      | _ \<Rightarrow> [])"

text \<open>
  The five fields of an agent that the search looks at, and what it means for one of them
  to be present and to contain the term, under a given \<open>toLowerCase\<close>.
\<close>

definition search_fields :: "agent \<Rightarrow> jsval list" where
  "search_fields a = [representative a, address a, city a, province a, msisdn a]"

definition field_contains :: "(jsstring \<Rightarrow> jsstring) \<Rightarrow> jsstring \<Rightarrow> jsval \<Rightarrow> bool" where
  "field_contains lower term field =
     (case field of JStr s \<Rightarrow> s \<noteq> [] \<and> sublist term (lower s) | _ \<Rightarrow> False)"

text \<open>An agent whose five search fields are each a text or falsy (absent, \<open>null\<close>, empty).\<close>

definition text_fields :: "agent \<Rightarrow> bool" where
  "text_fields a = list_all (\<lambda>v. is_text v \<or> \<not> truthy v) (search_fields a)"

text \<open>
  The search term of a handler, which is the text of the search box in lower case and
  trimmed, and the agents that the term and the two selects let through.
\<close>

definition search_term :: "browser \<Rightarrow> controls \<Rightarrow> jsstring" where
  "search_term b ctl = trim (toLowerCase b (agent_search ctl))"

definition passes_filters :: "browser \<Rightarrow> controls \<Rightarrow> agent \<Rightarrow> bool" where
  "passes_filters b ctl a =
     ((search_term b ctl = []
        \<or> list_ex (field_contains (toLowerCase b) (search_term b ctl)) (search_fields a))
      \<and> (region_filter ctl = [] \<or> province a = JStr (region_filter ctl))
      \<and> (area_filter ctl = [] \<or> city a = JStr (area_filter ctl)))"


definition name_of :: "agent \<Rightarrow> jsstring" where
  "name_of a = (case representative a of JStr s \<Rightarrow> s | _ \<Rightarrow> [])"



text \<open>
  The failures of a load that come before any agent is stored: the request is rejected
  (a network error, an error status), the answer is \<open>null\<close>, it is not a success, or
  its \<open>data\<close> or the \<open>agents\<close> in it are missing or falsy.
\<close>

definition fails_before_storing :: "ajax_result \<Rightarrow> bool" where
  "fails_before_storing res =
     (case res of
        Rejected _ _ \<Rightarrow> True
      | Resolved NoResponse \<Rightarrow> True
      | Resolved (Response success data) \<Rightarrow>
          (case data of
             None \<Rightarrow> True
           | Some d \<Rightarrow> \<not> success \<or> data_agents d = Falsy))"

text \<open>A successful answer whose \<open>agents\<close> is truthy and not an array.\<close>

definition non_array_payload :: "ajax_result \<Rightarrow> bool" where
  "non_array_payload res =
     (case res of
        Resolved (Response success (Some d)) \<Rightarrow> success \<and> data_agents d = NonArray
      | _ \<Rightarrow> False)"

text \<open>The messages of kind \<open>error\<close> among the events: what the user is told went wrong.\<close>

definition error_messages :: "event list \<Rightarrow> jsstring list" where
  "error_messages evs =
     List.map_filter (\<lambda>e. case e of ShowMessage text kind \<Rightarrow> if kind = ''error'' then Some text else None
                           | _ \<Rightarrow> None) evs"

section \<open>Sample data\<close>

text \<open>
  What a browser supplies, on the texts of the examples: the case mappings of the ASCII
  letters, the comparison of texts by their code units (one consistent collation), and
  libraries that draw without raising.
\<close>

definition ascii_lower :: "jsstring \<Rightarrow> jsstring" where
  "ascii_lower s = map (\<lambda>c. if 65 \<le> c \<and> c \<le> 90 then c + 32 else c) s"

definition ascii_upper :: "jsstring \<Rightarrow> jsstring" where
  "ascii_upper s = map (\<lambda>c. if 97 \<le> c \<and> c \<le> 122 then c - 32 else c) s"

definition code_unit_compare :: "jsstring \<Rightarrow> jsval \<Rightarrow> int" where
  "code_unit_compare x that =
     (let y = (case that of JStr s \<Rightarrow> s | _ \<Rightarrow> str ''undefined'')
      in if x < y then - 1 else if x = y then 0 else 1)"

definition sample_browser :: browser where
  "sample_browser =
     \<lparr>toLowerCase = ascii_lower, localeCompare = code_unit_compare,
      draws = (\<lambda>_. None), fills = (\<lambda>_. None)\<rparr>"

definition sample_number_text :: "rat \<Rightarrow> jsstring" where
  "sample_number_text r = str ''1e+21''"

definition sample_agent :: "jsval \<Rightarrow> string \<Rightarrow> rat option \<Rightarrow> agent" where
  "sample_agent i n d =
     \<lparr>agent_id = i, representative = JStr (str n), address = JStr (str ''12 Main Street''),
      city = JStr (str ''Harare''), province = JStr (str ''Harare Province''),
      msisdn = JStr (str ''263771000000''),
      latitude = JNum (- 71 / 4), longitude = JNum (125 / 4), distance = d\<rparr>"

definition all_omitted :: api_response where
  "all_omitted = \<lparr>amount = JUndefined, serviceCharge = JUndefined, taxAmount = JUndefined,
                  totalTariff = JUndefined, totalAmount = JUndefined\<rparr>"

section \<open>Reading numbers: facts about the parsers\<close>

lemma str_inject [simp]: "str a = str b \<longleftrightarrow> a = b"
proof -
  have "inj (of_char :: char \<Rightarrow> int)"
    by (rule injI) simp
  then have "inj (map (of_char :: char \<Rightarrow> int))" by simp
  then show ?thesis by (auto simp: str_def dest: injD)
qed

lemma str_Nil [simp]: "str [] = []" "str s = [] \<longleftrightarrow> s = []" "[] = str s \<longleftrightarrow> s = []"
  by (auto simp: str_def)

lemma str_length [simp]: "length (str s) = length s"
  by (simp add: str_def)

lemma fl_not_NaN: "fl r \<noteq> NaN"
  by (simp add: fl_def Let_def)

lemma number_of_not_NaN: "number_of v \<noteq> NaN"
  by (cases v) (simp_all add: fl_not_NaN)

lemma pow2_pos: "0 < pow2 e"
  by (simp add: pow2_def)

lemma round_half_even_nonneg: "0 \<le> x \<Longrightarrow> 0 \<le> round_half_even x"
  by (auto simp: round_half_even_def Let_def)

text \<open>Rounding keeps the sign: a value that is not positive is not read as a positive number.\<close>

lemma fl_negative:
  assumes "r < 0"
  shows "fl r = NegInf \<or> (\<exists>v. 0 \<le> v \<and> fl r = Fin (- v))"
proof -
  define q where "q = max (binary_exponent \<bar>r\<bar> - 52) (- 1074)"
  define m where "m = round_half_even (\<bar>r\<bar> / pow2 q)"
  have "0 \<le> \<bar>r\<bar> / pow2 q" using pow2_pos[of q] by simp
  then have "0 \<le> m" unfolding m_def by (rule round_half_even_nonneg)
  then have v: "0 \<le> of_int m * pow2 q" using pow2_pos[of q] by simp
  have "fl r = NegInf \<or> fl r = Fin (- (of_int m * pow2 q))"
    unfolding fl_def Let_def q_def m_def using assms by (simp only: if_False if_True split: if_splits) auto
  then show ?thesis using v by auto
qed

lemma fl_positive:
  assumes "js_gt (fl r) (Fin 0)"
  shows "0 < r"
proof (rule ccontr)
  assume "\<not> 0 < r"
  then consider "r = 0" | "r < 0" by fastforce
  then show False
  proof cases
    case 1
    then show ?thesis using assms by (simp add: fl_def js_gt_def)
  next
    case 2
    from fl_negative[OF 2] show ?thesis using assms by (auto simp: js_gt_def)
  qed
qed

lemma dropWhile_trim: "dropWhile is_space (trim s) = trim s"
proof (cases "dropWhile is_space s")
  case Nil
  show ?thesis unfolding trim_def Nil by simp
next
  case (Cons x xs)
  then have nx: "\<not> is_space x" by (metis dropWhile_eq_Cons_conv)
  have "\<exists>ys. dropWhile is_space (rev xs @ [x]) = ys @ [x]"
    using nx by (simp add: dropWhile_append)
  then obtain ys where "dropWhile is_space (rev xs @ [x]) = ys @ [x]" by blast
  then have "trim s = x # rev ys" using Cons by (simp add: trim_def)
  then show ?thesis using nx by simp
qed

lemma trim_trim: "trim (trim s) = trim s"
proof -
  have "rev (trim s) = dropWhile is_space (rev (dropWhile is_space s))"
    by (simp add: trim_def)
  then have "dropWhile is_space (rev (trim s)) = rev (trim s)"
    by (metis dropWhile_idem)
  then show ?thesis
    unfolding trim_def[of "trim s"] dropWhile_trim by simp
qed

lemma parseFloat_NaN_iff: "parseFloat s = NaN \<longleftrightarrow> scan_decimal (dropWhile is_space s) = None"
  by (auto simp: parseFloat_def number_of_not_NaN split: option.splits)

lemma radix_literal_scan:
  assumes "radix_literal s = Some n"
  shows "scan_decimal s \<noteq> None"
proof -
  from assms obtain p ds where s: "s = 48 # p # ds"
    by (auto simp: radix_literal_def split: list.splits if_splits)
  have "takeWhile is_digit s \<noteq> []" by (simp add: s is_digit_def)
  moreover have "scan_sign s = (False, s)" by (simp add: s scan_sign_def)
  moreover have "take 8 s \<noteq> str ''Infinity''" by (simp add: s str_def)
  ultimately show ?thesis
    by (simp add: scan_decimal_def Let_def split: prod.splits)
qed

lemma numeric_parseFloat:
  assumes "\<not> isNaN (trim s)"  and "trim s \<noteq> []"
  shows "parseFloat (trim s) \<noteq> NaN"
proof -
  have "scan_decimal (trim s) \<noteq> None"
    using assms radix_literal_scan[of "trim s"]
    by (auto simp: isNaN_def to_number_def trim_trim Let_def split: option.splits list.splits)
  then show ?thesis by (simp add: parseFloat_NaN_iff dropWhile_trim)
qed

text \<open>White space after a number does not change what the scanner reads, so trimming does not change \<open>parseFloat\<close>.\<close>

lemma space_not_digit: "is_space c \<Longrightarrow> \<not> is_digit c"
  by (auto simp: is_space_def is_digit_def)

lemma takeWhile_digit_of_spaces: "list_all is_space t \<Longrightarrow> takeWhile is_digit t = []"
  by (cases t) (auto simp: space_not_digit)

lemma dropWhile_digit_of_spaces: "list_all is_space t \<Longrightarrow> dropWhile is_digit t = t"
  by (cases t) (auto simp: space_not_digit)

lemma takeWhile_digit_spaces:
  "list_all is_space t \<Longrightarrow> takeWhile is_digit (x @ t) = takeWhile is_digit x"
  by (induction x) (auto simp: takeWhile_digit_of_spaces)

lemma dropWhile_digit_spaces:
  "list_all is_space t \<Longrightarrow> dropWhile is_digit (x @ t) = dropWhile is_digit x @ t"
  by (induction x) (auto simp: dropWhile_digit_of_spaces)

lemma scan_sign_spaces:
  "list_all is_space t \<Longrightarrow> scan_sign (x @ t) = (fst (scan_sign x), snd (scan_sign x) @ t)"
  by (cases x; cases t) (auto simp: scan_sign_def is_space_def)

lemma scan_exponent_spaces:
  assumes "list_all is_space t"
  shows "scan_exponent (x @ t) = (fst (scan_exponent x), snd (scan_exponent x) @ t)"
proof (cases x)
  case Nil
  then show ?thesis using assms by (cases t) (auto simp: scan_exponent_def is_space_def)
next
  case (Cons c r)
  obtain neg w where su: "scan_sign r = (neg, w)" by (cases "scan_sign r")
  then have "scan_sign (r @ t) = (neg, w @ t)" using scan_sign_spaces[OF assms, of r] by simp
  then show ?thesis
    using su assms
    by (auto simp: Cons scan_exponent_def takeWhile_digit_spaces dropWhile_digit_spaces Let_def)
qed

lemma infinity_spaces:
  assumes "list_all is_space t"
  shows "take 8 (x @ t) = str ''Infinity'' \<longleftrightarrow> take 8 x = str ''Infinity''"
proof (cases "8 \<le> length x")
  case True
  then show ?thesis by simp
next
  case False
  have "take 8 x \<noteq> str ''Infinity''"
  proof
    assume "take 8 x = str ''Infinity''"
    then have "length (take 8 x) = 8" by simp
    then show False using False by simp
  qed
  moreover have "take 8 (x @ t) \<noteq> str ''Infinity''"
  proof
    assume e: "take 8 (x @ t) = str ''Infinity''"
    then have "length (take 8 (x @ t)) = 8" by simp
    then have "take (8 - length x) t \<noteq> []" using False by auto
    then obtain c where c: "c \<in> set (take (8 - length x) t)" by (cases "take (8 - length x) t") auto
    then have "is_space c" using assms by (auto simp: list_all_iff dest: in_set_takeD)
    moreover have "c \<in> set (take 8 (x @ t))" using c by simp
    then have "c \<in> set (str ''Infinity'')" unfolding e .
    ultimately show False by (auto simp: is_space_def str_def)
  qed
  ultimately show ?thesis by simp
qed

lemma fraction_spaces:
  assumes "list_all is_space t"
  shows "(case r1 @ t of
            c # w \<Rightarrow>
              if c = 46 \<and> \<not> (ip = [] \<and> takeWhile is_digit w = [])
              then (takeWhile is_digit w, dropWhile is_digit w)
              else ([], r1 @ t)
          | [] \<Rightarrow> ([], r1 @ t))
       = (let (fp, r2) =
                (case r1 of
                   c # w \<Rightarrow>
                     if c = 46 \<and> \<not> (ip = [] \<and> takeWhile is_digit w = [])
                     then (takeWhile is_digit w, dropWhile is_digit w)
                     else ([], r1)
                 | [] \<Rightarrow> ([], r1))
          in (fp, r2 @ t))"
proof (cases r1)
  case Nil
  then show ?thesis using assms by (cases t) (auto simp: is_space_def)
next
  case (Cons c w)
  then show ?thesis using assms
    by (auto simp: takeWhile_digit_spaces dropWhile_digit_spaces)
qed

lemma scan_decimal_spaces:
  assumes "list_all is_space t"
  shows "scan_decimal (x @ t) = map_option (\<lambda>(v, r). (v, r @ t)) (scan_decimal x)"
proof -
  obtain neg s1 where ss: "scan_sign x = (neg, s1)" by (cases "scan_sign x")
  then have ss': "scan_sign (x @ t) = (neg, s1 @ t)"
    using scan_sign_spaces[OF assms, of x] by simp
  show ?thesis
  proof (cases "take 8 s1 = str ''Infinity''")
    case True
    then have "length (take 8 s1) = 8" by simp
    then have "8 \<le> length s1" by simp
    then have "drop 8 (s1 @ t) = drop 8 s1 @ t" by simp
    then show ?thesis
      using True infinity_spaces[OF assms, of s1]
      by (simp add: scan_decimal_def ss ss')
  next
    case False
    then have inf': "take 8 (s1 @ t) \<noteq> str ''Infinity''"
      using infinity_spaces[OF assms, of s1] by simp
    obtain fp r2 where fr: "(case dropWhile is_digit s1 of
                   c # w \<Rightarrow>
                     if c = 46 \<and> \<not> (takeWhile is_digit s1 = [] \<and> takeWhile is_digit w = [])
                     then (takeWhile is_digit w, dropWhile is_digit w)
                     else ([], dropWhile is_digit s1)
                 | [] \<Rightarrow> ([], dropWhile is_digit s1)) = (fp, r2)"
      by (cases "(case dropWhile is_digit s1 of
                   c # w \<Rightarrow>
                     if c = 46 \<and> \<not> (takeWhile is_digit s1 = [] \<and> takeWhile is_digit w = [])
                     then (takeWhile is_digit w, dropWhile is_digit w)
                     else ([], dropWhile is_digit s1)
                 | [] \<Rightarrow> ([], dropWhile is_digit s1))") blast
    have fr': "(case dropWhile is_digit s1 @ t of
            c # w \<Rightarrow>
              if c = 46 \<and> \<not> (takeWhile is_digit s1 = [] \<and> takeWhile is_digit w = [])
              then (takeWhile is_digit w, dropWhile is_digit w)
              else ([], dropWhile is_digit s1 @ t)
          | [] \<Rightarrow> ([], dropWhile is_digit s1 @ t)) = (fp, r2 @ t)"
    proof -
      have "(case dropWhile is_digit s1 @ t of
            c # w \<Rightarrow>
              if c = 46 \<and> \<not> (takeWhile is_digit s1 = [] \<and> takeWhile is_digit w = [])
              then (takeWhile is_digit w, dropWhile is_digit w)
              else ([], dropWhile is_digit s1 @ t)
          | [] \<Rightarrow> ([], dropWhile is_digit s1 @ t))
         = (let (fp, r2) =
                (case dropWhile is_digit s1 of
                   c # w \<Rightarrow>
                     if c = 46 \<and> \<not> (takeWhile is_digit s1 = [] \<and> takeWhile is_digit w = [])
                     then (takeWhile is_digit w, dropWhile is_digit w)
                     else ([], dropWhile is_digit s1)
                 | [] \<Rightarrow> ([], dropWhile is_digit s1))
          in (fp, r2 @ t))"
        by (rule fraction_spaces[OF assms])
      also have "\<dots> = (fp, r2 @ t)"
        by (simp only: fr Let_def case_prod_conv)
      finally show ?thesis .
    qed
    obtain ex r3 where se: "scan_exponent r2 = (ex, r3)" by (cases "scan_exponent r2")
    then have se': "scan_exponent (r2 @ t) = (ex, r3 @ t)"
      using scan_exponent_spaces[OF assms, of r2] by simp
    have A: "scan_decimal x =
        (if takeWhile is_digit s1 = [] \<and> fp = [] then None
         else Some (LExact (if neg then - ((of_int (digits_value 10 (takeWhile is_digit s1))
                      + of_int (digits_value 10 fp) / 10 ^ length fp) * pow10 ex)
                    else (of_int (digits_value 10 (takeWhile is_digit s1))
                      + of_int (digits_value 10 fp) / 10 ^ length fp) * pow10 ex), r3))"
      unfolding scan_decimal_def ss Let_def case_prod_conv fr se using False by simp
    have B: "scan_decimal (x @ t) =
        (if takeWhile is_digit s1 = [] \<and> fp = [] then None
         else Some (LExact (if neg then - ((of_int (digits_value 10 (takeWhile is_digit s1))
                      + of_int (digits_value 10 fp) / 10 ^ length fp) * pow10 ex)
                    else (of_int (digits_value 10 (takeWhile is_digit s1))
                      + of_int (digits_value 10 fp) / 10 ^ length fp) * pow10 ex), r3 @ t))"
      unfolding scan_decimal_def ss' Let_def case_prod_conv takeWhile_digit_spaces[OF assms]
        dropWhile_digit_spaces[OF assms] fr' se' using inf' by simp
    show ?thesis unfolding A B by simp
  qed
qed

lemma trim_decomposition: "\<exists>t. list_all is_space t \<and> dropWhile is_space s = trim s @ t"
proof -
  define w where "w = dropWhile is_space s"
  define t where "t = rev (takeWhile is_space (rev w))"
  have "rev (dropWhile is_space (rev w)) @ rev (takeWhile is_space (rev w))
      = rev (takeWhile is_space (rev w) @ dropWhile is_space (rev w))"
    by (simp only: rev_append)
  also have "\<dots> = w" by (simp only: takeWhile_dropWhile_id rev_rev_ident)
  finally have "w = trim s @ t" by (simp add: trim_def t_def w_def)
  moreover have "list_all is_space t"
    by (auto simp: t_def list_all_iff dest: set_takeWhileD)
  ultimately show ?thesis unfolding w_def by blast
qed

lemma parseFloat_trim: "parseFloat (trim s) = parseFloat s"
proof -
  obtain t where sp: "list_all is_space t" and w: "dropWhile is_space s = trim s @ t"
    using trim_decomposition by blast
  have "scan_decimal (dropWhile is_space s) = map_option (\<lambda>(v, r). (v, r @ t)) (scan_decimal (trim s))"
    unfolding w by (rule scan_decimal_spaces[OF sp])
  then show ?thesis
    by (auto simp: parseFloat_def dropWhile_trim split: option.splits)
qed

lemma written_amount_trim: "written_amount (trim s) = written_amount s"
proof -
  obtain t where sp: "list_all is_space t" and w: "dropWhile is_space s = trim s @ t"
    using trim_decomposition by blast
  have "scan_decimal (dropWhile is_space s) = map_option (\<lambda>(v, r). (v, r @ t)) (scan_decimal (trim s))"
    unfolding w by (rule scan_decimal_spaces[OF sp])
  then show ?thesis
    by (auto simp: written_amount_def dropWhile_trim split: option.splits literal_value.splits)
qed

lemma parseFloat_written: "written_amount s = Some r \<Longrightarrow> parseFloat s = fl r"
  by (auto simp: written_amount_def parseFloat_def split: option.splits literal_value.splits)

text \<open>
  Rounding does not pass an integer: a positive value that is at most an integer below
  \<open>2^52\<close> is read as a number that is at most that integer.
\<close>

lemma pow2_powi: "pow2 e = 2 powi e"
  by (simp add: pow2_def power_int_def power_inverse[symmetric] inverse_eq_divide power_one_over)

lemma bitlen_bounds:
  "0 < n \<Longrightarrow> 1 \<le> bitlen n \<and> 2 ^ nat (bitlen n - 1) \<le> n \<and> n < 2 ^ nat (bitlen n)"
proof (induction n rule: bitlen.induct)
  case (1 n)
  show ?case
  proof (cases "n = 1")
    case True
    have "bitlen 1 = 1" by (simp add: bitlen.simps[of 1] bitlen.simps[of 0])
    then show ?thesis using True by simp
  next
    case False
    then have h: "0 < n div 2" using 1(2) by simp
    have n: "\<not> n \<le> 0" using 1(2) by simp
    from 1(1)[OF n h] have b: "1 \<le> bitlen (n div 2)"
      and lo: "2 ^ nat (bitlen (n div 2) - 1) \<le> n div 2"
      and hi: "n div 2 < 2 ^ nat (bitlen (n div 2))" by simp_all
    have bn: "bitlen n = 1 + bitlen (n div 2)" using n by (simp add: bitlen.simps[of n])
    have e1: "nat (bitlen n - 1) = Suc (nat (bitlen (n div 2) - 1))" using b bn by simp
    have e2: "nat (bitlen n) = Suc (nat (bitlen (n div 2)))" using b bn by simp
    have "2 * (n div 2) \<le> n" by simp
    then have l: "2 ^ nat (bitlen n - 1) \<le> n" using lo unfolding e1 by simp
    have "n \<le> 2 * (n div 2) + 1" by presburger
    then have u: "n < 2 ^ nat (bitlen n)" using hi unfolding e2 by simp
    show ?thesis using b bn l u by simp
  qed
qed

lemma binary_exponent_le:
  assumes "0 < a"
  shows "pow2 (binary_exponent a) \<le> a"
proof -
  obtain p q where pq: "quotient_of a = (p, q)" by (cases "quotient_of a")
  then have q: "0 < q" and a: "a = of_int p / of_int q"
    using quotient_of_denom_pos[OF pq] quotient_of_div[OF pq] by simp_all
  have p: "0 < p" using assms q a by (simp add: zero_less_divide_iff)
  note bp = bitlen_bounds[OF p] and bq = bitlen_bounds[OF q]
  define d where "d = bitlen p - bitlen q"
  show ?thesis
  proof (cases "pow2 d \<le> a")
    case True
    then show ?thesis by (simp add: binary_exponent_def pq d_def)
  next
    case False
    then have e: "binary_exponent a = d - 1" by (simp add: binary_exponent_def pq d_def)
    have "(2::rat) ^ nat (bitlen p - 1) \<le> of_int p"
    proof -
      have "of_int (2 ^ nat (bitlen p - 1)) \<le> (of_int p :: rat)" using bp by (simp only: of_int_le_iff)
      then show ?thesis by simp
    qed
    moreover have "(of_int q :: rat) \<le> 2 ^ nat (bitlen q)"
    proof -
      have "q \<le> 2 ^ nat (bitlen q)" using bq by simp
      then have "(of_int q :: rat) \<le> of_int (2 ^ nat (bitlen q))" by (simp only: of_int_le_iff)
      then show ?thesis by simp
    qed
    ultimately have "(2::rat) ^ nat (bitlen p - 1) / 2 ^ nat (bitlen q) \<le> of_int p / of_int q"
      using q p by (intro frac_le) simp_all
    moreover have "pow2 (d - 1) = 2 ^ nat (bitlen p - 1) / 2 ^ nat (bitlen q)"
    proof -
      have "d - 1 = int (nat (bitlen p - 1)) - int (nat (bitlen q))" using bp bq by (simp add: d_def)
      then have "pow2 (d - 1) = 2 powi (int (nat (bitlen p - 1)) - int (nat (bitlen q)))"
        by (simp add: pow2_powi)
      also have "\<dots> = 2 powi int (nat (bitlen p - 1)) / 2 powi int (nat (bitlen q))"
        by (rule power_int_diff) simp
      also have "\<dots> = 2 ^ nat (bitlen p - 1) / 2 ^ nat (bitlen q)"
        by (simp only: power_int_of_nat)
      finally show ?thesis .
    qed
    ultimately show ?thesis using e a by simp
  qed
qed

lemma round_half_even_le: "x \<le> of_int N \<Longrightarrow> round_half_even x \<le> N"
proof -
  assume x: "x \<le> of_int N"
  then have f: "\<lfloor>x\<rfloor> \<le> N" by (simp add: floor_le_iff) 
  show ?thesis
  proof (cases "\<lfloor>x\<rfloor> = N")
    case True
    then have "of_int N \<le> x" by (metis of_int_floor_le)
    then have "x = of_int N" using x by simp
    then show ?thesis by (simp add: round_half_even_def)
  next
    case False
    then have "\<lfloor>x\<rfloor> + 1 \<le> N" using f by simp
    then show ?thesis by (auto simp: round_half_even_def Let_def)
  qed
qed

lemma fl_le_int:
  assumes r: "0 < r" and le: "r \<le> of_int c" and c: "c < 2 ^ 52"
  shows "js_le (fl r) (Fin (of_int c))"
proof -
  define e where "e = binary_exponent r"
  define q where "q = max (e - 52) (- 1074)"
  define m where "m = round_half_even (r / pow2 q)"
  have "pow2 e \<le> r" unfolding e_def by (rule binary_exponent_le[OF r])
  also have "r < 2 ^ 52"
  proof -
    have "(of_int c :: rat) < of_int (2 ^ 52)" using c by (simp only: of_int_less_iff)
    then show ?thesis using le by simp
  qed
  finally have pe: "pow2 e < 2 ^ 52" .
  have e52: "e < 52"
  proof (rule ccontr)
    assume "\<not> e < 52"
    then have "(2::rat) powi 52 \<le> 2 powi e" by (intro power_int_increasing) simp_all
    then show False using pe by (simp add: pow2_powi)
  qed
  then have qneg: "q < 0" by (simp add: q_def)
  define k where "k = nat (- q)"
  have pq: "pow2 q = 1 / 2 ^ k" using qneg by (simp add: pow2_def k_def)
  have "r / pow2 q = r * 2 ^ k" by (simp add: pq)
  also have "\<dots> \<le> of_int c * 2 ^ k" using le by simp
  also have "\<dots> = of_int (c * 2 ^ k)" by simp
  finally have "m \<le> c * 2 ^ k" unfolding m_def by (rule round_half_even_le)
  then have "(of_int m :: rat) \<le> of_int (c * 2 ^ k)" by (simp only: of_int_le_iff)
  then have "(of_int m :: rat) \<le> of_int c * 2 ^ k" by simp
  then have v: "of_int m * pow2 q \<le> of_int c" by (simp add: pq field_simps)
  have "fl r = Fin (of_int m * pow2 q)"
    using r e52 by (simp add: fl_def Let_def e_def[symmetric] q_def[symmetric] m_def[symmetric])
  then show ?thesis using v by (simp add: js_le_def)
qed

text \<open>Values too small or too large for binary64 are read as 0 and as an infinity.\<close>

lemma binary_exponent_gt:
  assumes "0 < a"
  shows "a < pow2 (binary_exponent a + 1)"
proof -
  obtain p q where pq: "quotient_of a = (p, q)" by (cases "quotient_of a")
  then have q: "0 < q" and a: "a = of_int p / of_int q"
    using quotient_of_denom_pos[OF pq] quotient_of_div[OF pq] by simp_all
  have p: "0 < p" using assms q a by (simp add: zero_less_divide_iff)
  note bp = bitlen_bounds[OF p] and bq = bitlen_bounds[OF q]
  define d where "d = bitlen p - bitlen q"
  show ?thesis
  proof (cases "pow2 d \<le> a")
    case False
    then show ?thesis by (simp add: binary_exponent_def pq d_def)
  next
    case True
    then have e: "binary_exponent a = d" by (simp add: binary_exponent_def pq d_def)
    have "(of_int p :: rat) < 2 ^ nat (bitlen p)"
    proof -
      have "(of_int p :: rat) < of_int (2 ^ nat (bitlen p))" using bp by (simp only: of_int_less_iff)
      then show ?thesis by simp
    qed
    moreover have "(2::rat) ^ nat (bitlen q - 1) \<le> of_int q"
    proof -
      have "(of_int (2 ^ nat (bitlen q - 1)) :: rat) \<le> of_int q" using bq by (simp only: of_int_le_iff)
      then show ?thesis by simp
    qed
    ultimately have "of_int p / of_int q < (2::rat) ^ nat (bitlen p) / 2 ^ nat (bitlen q - 1)"
      using q p by (intro frac_less) simp_all
    moreover have "pow2 (d + 1) = 2 ^ nat (bitlen p) / 2 ^ nat (bitlen q - 1)"
    proof -
      have "d + 1 = int (nat (bitlen p)) - int (nat (bitlen q - 1))" using bp bq by (simp add: d_def)
      then have "pow2 (d + 1) = 2 powi (int (nat (bitlen p)) - int (nat (bitlen q - 1)))"
        by (simp add: pow2_powi)
      also have "\<dots> = 2 powi int (nat (bitlen p)) / 2 powi int (nat (bitlen q - 1))"
        by (rule power_int_diff) simp
      also have "\<dots> = 2 ^ nat (bitlen p) / 2 ^ nat (bitlen q - 1)"
        by (simp only: power_int_of_nat)
      finally show ?thesis .
    qed
    ultimately show ?thesis using e a by simp
  qed
qed

lemma pow2_mono: "d \<le> e \<Longrightarrow> pow2 d \<le> pow2 e"
  unfolding pow2_powi by (rule power_int_increasing) simp_all

lemma fl_underflow:
  assumes "0 < r" and "r < pow2 (- 1075)"
  shows "fl r = Fin 0"
proof -
  define e where "e = binary_exponent r"
  have "pow2 e \<le> r" unfolding e_def by (rule binary_exponent_le[OF assms(1)])
  then have pe: "pow2 e < pow2 (- 1075)" using assms(2) by simp
  have e: "e < - 1075"
  proof (rule ccontr)
    assume "\<not> e < - 1075"
    then have "pow2 (- 1075) \<le> pow2 e" by (intro pow2_mono) simp
    then show False using pe by simp
  qed
  then have q: "max (e - 52) (- 1074) = - 1074" by simp
  define x where "x = r / pow2 (- 1074)"
  have half: "x < 1 / 2"
  proof -
    have "pow2 (- 1075) = pow2 (- 1074) / 2" by (simp add: pow2_def)
    then have "r < pow2 (- 1074) / 2" using assms(2) by simp
    then show ?thesis unfolding x_def using pow2_pos[of "- 1074"] by (simp add: field_simps)
  qed
  have nonneg: "0 \<le> x" unfolding x_def using assms(1) pow2_pos[of "- 1074"] by simp
  have "\<lfloor>x\<rfloor> = 0" using half nonneg by (simp add: floor_eq_iff)
  then have "round_half_even x = 0" using half by (simp add: round_half_even_def Let_def)
  then have "round_half_even (r / pow2 (- 1074)) = 0" by (simp add: x_def)
  then show ?thesis
    using assms(1) e by (simp add: fl_def Let_def e_def[symmetric] q)
qed

lemma fl_overflow:
  assumes "pow2 1024 \<le> r"
  shows "fl r = PosInf"
proof -
  have r: "0 < r" using assms pow2_pos[of 1024] by simp
  define e where "e = binary_exponent r"
  have "r < pow2 (e + 1)" unfolding e_def by (rule binary_exponent_gt[OF r])
  then have pe: "pow2 1024 < pow2 (e + 1)" using assms by simp
  have "1024 \<le> e"
  proof (rule ccontr)
    assume "\<not> 1024 \<le> e"
    then have "pow2 (e + 1) \<le> pow2 1024" by (intro pow2_mono) simp
    then show False using pe by simp
  qed
  then show ?thesis using r by (simp add: fl_def Let_def e_def[symmetric])
qed

lemma scan_1e_minus_324:
  "scan_decimal (str ''1e-324'') = Some (LExact (pow10 (- 324)), [])"
  by (simp add: scan_decimal_def scan_sign_def scan_exponent_def digits_value_def digit_val_def
      is_digit_def str_def Let_def)

lemma scan_1e400:
  "scan_decimal (str ''1e400'') = Some (LExact (pow10 400), [])"
  by (simp add: scan_decimal_def scan_sign_def scan_exponent_def digits_value_def digit_val_def
      is_digit_def str_def Let_def)

lemma trim_1e_minus_324: "trim (str ''1e-324'') = str ''1e-324''"
  by (simp add: trim_def str_def is_space_def)

lemma trim_1e400: "trim (str ''1e400'') = str ''1e400''"
  by (simp add: trim_def str_def is_space_def)

lemma tiny_value: "fl (pow10 (- 324)) = Fin 0"
  by (rule fl_underflow) (simp_all add: pow10_def pow2_def)

lemma huge_value: "fl (pow10 400) = PosInf"
  by (rule fl_overflow) (simp add: pow10_def pow2_def)

lemma parse_1e_minus_324:
  "parseFloat (trim (str ''1e-324'')) = Fin 0 \<and> \<not> isNaN (trim (str ''1e-324''))"
proof -
  have d: "dropWhile is_space (str ''1e-324'') = str ''1e-324''" by (simp add: str_def is_space_def)
  have r: "radix_literal (str ''1e-324'') = None" by (simp add: radix_literal_def str_def)
  have p: "parseFloat (str ''1e-324'') = Fin 0"
    by (simp add: parseFloat_def d scan_1e_minus_324 tiny_value)
  have n: "to_number (str ''1e-324'') = Fin 0"
    by (simp add: to_number_def trim_1e_minus_324 r scan_1e_minus_324 tiny_value)
  show ?thesis by (simp add: trim_1e_minus_324 p isNaN_def n)
qed

lemma parse_1e400:
  "parseFloat (trim (str ''1e400'')) = PosInf \<and> \<not> isNaN (trim (str ''1e400''))"
proof -
  have d: "dropWhile is_space (str ''1e400'') = str ''1e400''" by (simp add: str_def is_space_def)
  have r: "radix_literal (str ''1e400'') = None" by (simp add: radix_literal_def str_def)
  have p: "parseFloat (str ''1e400'') = PosInf"
    by (simp add: parseFloat_def d scan_1e400 huge_value)
  have n: "to_number (str ''1e400'') = PosInf"
    by (simp add: to_number_def trim_1e400 r scan_1e400 huge_value)
  show ?thesis by (simp add: trim_1e400 p isNaN_def n)
qed

section \<open>Fee calculator: validation, ceilings and the request\<close>

lemma js_le_iff_not_gt: "x \<noteq> NaN \<Longrightarrow> js_le x (Fin c) \<longleftrightarrow> \<not> js_gt x (Fin c)"
  by (cases x) (auto simp: js_le_def js_gt_def)

lemma js_le_not_gt: "js_le x y \<Longrightarrow> \<not> js_gt x y"
  by (simp add: js_le_def js_gt_def)

lemma validation_passes:
  assumes "trim (amount_field f) \<noteq> []" and "\<not> isNaN (trim (amount_field f))"
    and "js_gt (parseFloat (trim (amount_field f))) (Fin 0)"
    and "currency_field f \<noteq> []" and "type_field f \<noteq> []"
  shows "basic_validation (trim (amount_field f)) (currency_field f) (type_field f) = ([], True)"
  using assms js_le_not_gt[of "parseFloat (trim (amount_field f))" "Fin 0"]
  by (auto simp: basic_validation_def)

lemma validation_fails:
  assumes "\<not> (trim (amount_field f) \<noteq> [] \<and> \<not> isNaN (trim (amount_field f))
      \<and> js_gt (parseFloat (trim (amount_field f))) (Fin 0)
      \<and> currency_field f \<noteq> [] \<and> type_field f \<noteq> [])"
  shows "snd (basic_validation (trim (amount_field f)) (currency_field f) (type_field f)) = False"
proof (cases "trim (amount_field f) \<noteq> [] \<and> \<not> isNaN (trim (amount_field f))")
  case True
  then have "parseFloat (trim (amount_field f)) \<noteq> NaN" by (simp add: numeric_parseFloat)
  then show ?thesis using assms True
    by (auto simp: basic_validation_def js_le_iff_not_gt)
next
  case False
  then show ?thesis by (auto simp: basic_validation_def)
qed

lemma click_invalid:
  assumes "snd (basic_validation (trim (amount_field f)) (currency_field f) (type_field f)) = False"
  shows "calculate_click up f =
       \<lparr>errors = fst (basic_validation (trim (amount_field f)) (currency_field f) (type_field f)),
        warning = None, limit_exceeded = False, request = None\<rparr>"
proof -
  obtain errs where "basic_validation (trim (amount_field f)) (currency_field f) (type_field f)
      = (errs, False)"
    using assms by (cases "basic_validation (trim (amount_field f)) (currency_field f) (type_field f)") auto
  then show ?thesis by (simp add: calculate_click_def)
qed

lemma written_positive:
  assumes "js_gt (parseFloat (trim s)) (Fin 0)" and "written_amount s = Some r"
  shows "0 < r"
proof -
  have "written_amount (trim s) = Some r" using assms(2) by (simp add: written_amount_trim)
  then have "parseFloat (trim s) = fl r" by (rule parseFloat_written)
  then show ?thesis using assms(1) fl_positive by simp
qed

text \<open>
  Claim C7. The calculator issues a request only when the trimmed amount is not empty,
  is numeric and is greater than zero, and a currency and a transaction type are chosen;
  the amount is then greater than zero as a number and as it is written. When one of
  these fails no request is issued, and the message of every failing field is shown
  beside it: \<open>Please enter an amount\<close>, \<open>Amount must be a number\<close> or
  \<open>Amount must be greater than zero\<close> for the amount, \<open>Please select a currency\<close>,
  \<open>Please select a transaction type\<close>.
\<close>

theorem calculator_request_only_when_valid:
  "(request (calculate_click up f) \<noteq> None \<longrightarrow>
      trim (amount_field f) \<noteq> [] \<and> \<not> isNaN (trim (amount_field f))
      \<and> js_gt (parseFloat (trim (amount_field f))) (Fin 0)
      \<and> (\<forall>r. written_amount (amount_field f) = Some r \<longrightarrow> 0 < r)
      \<and> currency_field f \<noteq> [] \<and> type_field f \<noteq> [])
   \<and> (trim (amount_field f) = [] \<longrightarrow>
        request (calculate_click up f) = None
        \<and> (''ecocash-amount'', ''Please enter an amount'') \<in> set (errors (calculate_click up f)))
   \<and> (trim (amount_field f) \<noteq> [] \<and> isNaN (trim (amount_field f)) \<longrightarrow>
        request (calculate_click up f) = None
        \<and> (''ecocash-amount'', ''Amount must be a number'') \<in> set (errors (calculate_click up f)))
   \<and> (trim (amount_field f) \<noteq> [] \<and> \<not> isNaN (trim (amount_field f))
        \<and> \<not> js_gt (parseFloat (trim (amount_field f))) (Fin 0) \<longrightarrow>
        request (calculate_click up f) = None
        \<and> (''ecocash-amount'', ''Amount must be greater than zero'') \<in> set (errors (calculate_click up f)))
   \<and> (currency_field f = [] \<longrightarrow>
        request (calculate_click up f) = None
        \<and> (''ecocash-currency'', ''Please select a currency'') \<in> set (errors (calculate_click up f)))
   \<and> (type_field f = [] \<longrightarrow>
        request (calculate_click up f) = None
        \<and> (''ecocash-transaction-type'', ''Please select a transaction type'')
            \<in> set (errors (calculate_click up f)))"
proof (cases "trim (amount_field f) \<noteq> [] \<and> \<not> isNaN (trim (amount_field f))
      \<and> js_gt (parseFloat (trim (amount_field f))) (Fin 0)
      \<and> currency_field f \<noteq> [] \<and> type_field f \<noteq> []")
  case True
  then have "\<forall>r. written_amount (amount_field f) = Some r \<longrightarrow> 0 < r"
    using written_positive by blast
  then show ?thesis using True by simp
next
  case False
  then have inv: "snd (basic_validation (trim (amount_field f)) (currency_field f) (type_field f)) = False"
    by (rule validation_fails)
  note click = click_invalid[OF inv, of up]
  have nan: "trim (amount_field f) \<noteq> [] \<and> \<not> isNaN (trim (amount_field f))
      \<Longrightarrow> parseFloat (trim (amount_field f)) \<noteq> NaN"
    by (simp add: numeric_parseFloat)
  have req: "request (calculate_click up f) = None" by (simp add: click)
  have e1: "trim (amount_field f) = [] \<Longrightarrow>
      (''ecocash-amount'', ''Please enter an amount'') \<in> set (errors (calculate_click up f))"
    by (simp add: click basic_validation_def showFieldError_def)
  have e2: "trim (amount_field f) \<noteq> [] \<and> isNaN (trim (amount_field f)) \<Longrightarrow>
      (''ecocash-amount'', ''Amount must be a number'') \<in> set (errors (calculate_click up f))"
    by (simp add: click basic_validation_def showFieldError_def)
  have e3: "trim (amount_field f) \<noteq> [] \<and> \<not> isNaN (trim (amount_field f))
        \<and> \<not> js_gt (parseFloat (trim (amount_field f))) (Fin 0) \<Longrightarrow>
      (''ecocash-amount'', ''Amount must be greater than zero'') \<in> set (errors (calculate_click up f))"
    using nan by (simp add: click basic_validation_def showFieldError_def js_le_iff_not_gt)
  have e4: "currency_field f = [] \<Longrightarrow>
      (''ecocash-currency'', ''Please select a currency'') \<in> set (errors (calculate_click up f))"
    by (simp add: click basic_validation_def showFieldError_def)
  have e5: "type_field f = [] \<Longrightarrow>
      (''ecocash-transaction-type'', ''Please select a transaction type'')
            \<in> set (errors (calculate_click up f))"
    by (simp add: click basic_validation_def showFieldError_def)
  show ?thesis using req e1 e2 e3 e4 e5 by blast
qed

text \<open>
  Three forms: a text that is no number with no currency chosen; the amount 50 written
  after a no-break space, which \<open>trim\<close> removes; and the amount \<open>1e-324\<close>,
  which is numeric and is read as 0.
\<close>

theorem calculator_request_only_when_valid_witness:
  "request (calculate_click ascii_upper
      \<lparr>amount_field = str ''abc'', currency_field = [], type_field = str ''sendmoney''\<rparr>) = None
   \<and> set (errors (calculate_click ascii_upper
      \<lparr>amount_field = str ''abc'', currency_field = [], type_field = str ''sendmoney''\<rparr>))
       = {(''ecocash-amount'', ''Amount must be a number''), (''ecocash-currency'', ''Please select a currency'')}
   \<and> request (calculate_click ascii_upper
      \<lparr>amount_field = 160 # str ''50'', currency_field = str ''ZWG'', type_field = str ''sendmoney''\<rparr>) \<noteq> None
   \<and> js_gt (parseFloat (trim (160 # str ''50''))) (Fin 0)
   \<and> request (calculate_click ascii_upper
      \<lparr>amount_field = str ''1e-324'', currency_field = str ''ZWG'', type_field = str ''sendmoney''\<rparr>) = None
   \<and> (''ecocash-amount'', ''Amount must be greater than zero'')
       \<in> set (errors (calculate_click ascii_upper
            \<lparr>amount_field = str ''1e-324'', currency_field = str ''ZWG'', type_field = str ''sendmoney''\<rparr>))"
proof -
  let ?f = "\<lparr>amount_field = 160 # str ''50'', currency_field = str ''ZWG'', type_field = str ''sendmoney''\<rparr>"
  let ?g = "\<lparr>amount_field = str ''abc'', currency_field = [], type_field = str ''sendmoney''\<rparr>"
  let ?h = "\<lparr>amount_field = str ''1e-324'', currency_field = str ''ZWG'', type_field = str ''sendmoney''\<rparr>"
  have c: "currency_field ?g = []" by simp
  have g1: "request (calculate_click ascii_upper ?g) = None"
    using calculator_request_only_when_valid[of ascii_upper ?g] c by blast
  have g2: "set (errors (calculate_click ascii_upper ?g))
       = {(''ecocash-amount'', ''Amount must be a number''), (''ecocash-currency'', ''Please select a currency'')}"
    by code_simp
  have f1: "request (calculate_click ascii_upper ?f) \<noteq> None" by code_simp
  have "js_gt (parseFloat (trim (amount_field ?f))) (Fin 0)"
    using calculator_request_only_when_valid[of ascii_upper ?f] f1 by blast
  then have f2: "js_gt (parseFloat (trim (160 # str ''50''))) (Fin 0)" by simp
  have h1: "trim (amount_field ?h) \<noteq> []" by (simp add: trim_1e_minus_324)
  have h2: "\<not> isNaN (trim (amount_field ?h))" using parse_1e_minus_324 by simp
  have h3: "\<not> js_gt (parseFloat (trim (amount_field ?h))) (Fin 0)"
    using parse_1e_minus_324 by (simp add: js_gt_def)
  have h: "request (calculate_click ascii_upper ?h) = None
      \<and> (''ecocash-amount'', ''Amount must be greater than zero'')
          \<in> set (errors (calculate_click ascii_upper ?h))"
    using calculator_request_only_when_valid[of ascii_upper ?h] h1 h2 h3 by blast
  show ?thesis using g1 g2 f1 f2 h by blast
qed

lemma ceiling_of_int: "Fin (spec_ceiling c) = Fin (of_int (if c = str ''USD'' then 500 else 8000))"
  by (simp add: spec_ceiling_def)

text \<open>
  Claim C1, as the code has it. For the currencies USD and ZWG and a form that passes the
  basic validation, the click handler compares the number that \<open>parseFloat\<close> reads
  from the amount, a binary64 value, with the ceiling of the currency (500 and 8000).
  When that number is at or below the ceiling, which is the case for every amount written
  at or below the ceiling, the request is issued. When it is above, the amount is
  rejected: no request, and the ceiling message beside the amount and in the warning.
  The handler of input and change events on the two fields compares the same number with
  the same ceiling and shows the same message. The amount \<open>600\<close> in USD is the
  instance proved after the theorem.
\<close>

theorem limit_check_threshold:
  assumes cur: "currency_field f = str ''USD'' \<or> currency_field f = str ''ZWG''"
    and valid: "trim (amount_field f) \<noteq> []" "\<not> isNaN (trim (amount_field f))"
      "js_gt (parseFloat (trim (amount_field f))) (Fin 0)"
    and ty: "type_field f \<noteq> []"
  shows "(js_le (parseFloat (trim (amount_field f))) (Fin (spec_ceiling (currency_field f))) \<longrightarrow>
           calculate_click up f =
             \<lparr>errors = [], warning = None, limit_exceeded = False,
              request = Some \<lparr>rq_action = ''ecocash_calculate'', rq_amount = trim (amount_field f),
                              rq_currency = currency_field f,
                              rq_transactionType = convertTransactionType up (type_field f)\<rparr>\<rparr>)
       \<and> (\<forall>r. written_amount (amount_field f) = Some r \<and> r \<le> spec_ceiling (currency_field f) \<longrightarrow>
              js_le (parseFloat (trim (amount_field f))) (Fin (spec_ceiling (currency_field f))))
       \<and> (js_gt (parseFloat (trim (amount_field f))) (Fin (spec_ceiling (currency_field f))) \<longrightarrow>
           calculate_click up f =
             \<lparr>errors = [(''ecocash-amount'', spec_ceiling_message (currency_field f))],
              warning = Some (spec_ceiling_message (currency_field f)),
              limit_exceeded = True, request = None\<rparr>)
       \<and> amount_input_change (amount_field f) (currency_field f) =
           (if js_gt (parseFloat (trim (amount_field f))) (Fin (spec_ceiling (currency_field f)))
            then (Some (spec_ceiling_message (currency_field f)), True) else (None, False))"
proof -
  have cne: "currency_field f \<noteq> []" using cur by auto
  have bv: "basic_validation (trim (amount_field f)) (currency_field f) (type_field f) = ([], True)"
    using valid cne ty by (rule validation_passes)
  have accept: "js_le (parseFloat (trim (amount_field f))) (Fin (spec_ceiling (currency_field f))) \<Longrightarrow>
           calculate_click up f =
             \<lparr>errors = [], warning = None, limit_exceeded = False,
              request = Some \<lparr>rq_action = ''ecocash_calculate'', rq_amount = trim (amount_field f),
                              rq_currency = currency_field f,
                              rq_transactionType = convertTransactionType up (type_field f)\<rparr>\<rparr>"
    using cur js_le_not_gt[of "parseFloat (trim (amount_field f))" "Fin (spec_ceiling (currency_field f))"]
    by (auto simp: calculate_click_def bv spec_ceiling_def)
  have written: "js_le (parseFloat (trim (amount_field f))) (Fin (spec_ceiling (currency_field f)))"
    if w: "written_amount (amount_field f) = Some r" and le: "r \<le> spec_ceiling (currency_field f)" for r
  proof -
    have pos: "0 < r" using valid(3) w by (rule written_positive)
    have "written_amount (trim (amount_field f)) = Some r" using w by (simp add: written_amount_trim)
    then have p: "parseFloat (trim (amount_field f)) = fl r" by (rule parseFloat_written)
    have le': "r \<le> of_int (if currency_field f = str ''USD'' then 500 else 8000)"
      using le by (auto simp: spec_ceiling_def split: if_splits)
    have c52: "(if currency_field f = str ''USD'' then 500 else 8000) < (2::int) ^ 52" by simp
    have "js_le (fl r) (Fin (of_int (if currency_field f = str ''USD'' then 500 else 8000)))"
      by (rule fl_le_int[OF pos le' c52])
    then show ?thesis unfolding p ceiling_of_int .
  qed
  have reject: "js_gt (parseFloat (trim (amount_field f))) (Fin (spec_ceiling (currency_field f))) \<Longrightarrow>
           calculate_click up f =
             \<lparr>errors = [(''ecocash-amount'', spec_ceiling_message (currency_field f))],
              warning = Some (spec_ceiling_message (currency_field f)),
              limit_exceeded = True, request = None\<rparr>"
    using cur
    by (auto simp: calculate_click_def bv spec_ceiling_def spec_ceiling_message_def showFieldError_def)
  have gtn: "\<And>c. parseFloat (amount_field f) = NaN \<Longrightarrow> \<not> js_gt (parseFloat (amount_field f)) (Fin c)"
    by (simp add: js_gt_def)
  have "amount_input_change (amount_field f) (currency_field f) =
           (if js_gt (parseFloat (amount_field f)) (Fin (spec_ceiling (currency_field f)))
            then (Some (spec_ceiling_message (currency_field f)), True) else (None, False))"
    using cur gtn
    by (auto simp: amount_input_change_def spec_ceiling_def spec_ceiling_message_def Let_def)
  then have live: "amount_input_change (amount_field f) (currency_field f) =
           (if js_gt (parseFloat (trim (amount_field f))) (Fin (spec_ceiling (currency_field f)))
            then (Some (spec_ceiling_message (currency_field f)), True) else (None, False))"
    by (simp add: parseFloat_trim)
  show ?thesis using accept written reject live by blast
qed

theorem limit_check_threshold_witness:
  "calculate_click ascii_upper
     \<lparr>amount_field = str ''600'', currency_field = str ''USD'', type_field = str ''sendmoney''\<rparr> =
     \<lparr>errors = [(''ecocash-amount'', ''USD transactions cannot exceed $500'')],
      warning = Some ''USD transactions cannot exceed $500'',
      limit_exceeded = True, request = None\<rparr>
   \<and> amount_input_change (str ''600'') (str ''USD'') = (Some ''USD transactions cannot exceed $500'', True)
   \<and> request (calculate_click ascii_upper
        \<lparr>amount_field = str ''500'', currency_field = str ''USD'', type_field = str ''sendmoney''\<rparr>) \<noteq> None
   \<and> calculate_click ascii_upper
     \<lparr>amount_field = str ''1e400'', currency_field = str ''USD'', type_field = str ''sendmoney''\<rparr> =
     \<lparr>errors = [(''ecocash-amount'', ''USD transactions cannot exceed $500'')],
      warning = Some ''USD transactions cannot exceed $500'',
      limit_exceeded = True, request = None\<rparr>"
proof -
  let ?f = "\<lparr>amount_field = str ''600'', currency_field = str ''USD'', type_field = str ''sendmoney''\<rparr>"
  let ?g = "\<lparr>amount_field = str ''1e400'', currency_field = str ''USD'', type_field = str ''sendmoney''\<rparr>"
  let ?h = "\<lparr>amount_field = str ''500'', currency_field = str ''USD'', type_field = str ''sendmoney''\<rparr>"
  have c: "currency_field ?f = str ''USD'' \<or> currency_field ?f = str ''ZWG''" by simp
  have v1: "trim (amount_field ?f) \<noteq> []" by code_simp
  have v2: "\<not> isNaN (trim (amount_field ?f))" by code_simp
  have v3: "js_gt (parseFloat (trim (amount_field ?f))) (Fin 0)" by code_simp
  have t: "type_field ?f \<noteq> []" by simp
  have g: "js_gt (parseFloat (trim (amount_field ?f))) (Fin (spec_ceiling (currency_field ?f)))"
    by code_simp
  have first: "calculate_click ascii_upper ?f =
     \<lparr>errors = [(''ecocash-amount'', ''USD transactions cannot exceed $500'')],
      warning = Some ''USD transactions cannot exceed $500'',
      limit_exceeded = True, request = None\<rparr>
   \<and> amount_input_change (str ''600'') (str ''USD'') = (Some ''USD transactions cannot exceed $500'', True)"
    using limit_check_threshold[OF c v1 v2 v3 t, of ascii_upper] g
    by (simp add: spec_ceiling_message_def)
  have c': "currency_field ?g = str ''USD'' \<or> currency_field ?g = str ''ZWG''" by simp
  have w1: "trim (amount_field ?g) \<noteq> []" by (simp add: trim_1e400)
  have w2: "\<not> isNaN (trim (amount_field ?g))" using parse_1e400 by simp
  have w3: "js_gt (parseFloat (trim (amount_field ?g))) (Fin 0)"
    using parse_1e400 by (simp add: js_gt_def)
  have t': "type_field ?g \<noteq> []" by simp
  have g': "js_gt (parseFloat (trim (amount_field ?g))) (Fin (spec_ceiling (currency_field ?g)))"
    using parse_1e400 by (simp add: js_gt_def)
  have second: "calculate_click ascii_upper ?g =
     \<lparr>errors = [(''ecocash-amount'', ''USD transactions cannot exceed $500'')],
      warning = Some ''USD transactions cannot exceed $500'',
      limit_exceeded = True, request = None\<rparr>"
    using limit_check_threshold[OF c' w1 w2 w3 t', of ascii_upper] g'
    by (simp add: spec_ceiling_message_def)
  have third: "request (calculate_click ascii_upper ?h) \<noteq> None" by code_simp
  show ?thesis using first second third by blast
qed

text \<open>
  The amount \<open>500.00000000000000001\<close> is written above the ceiling of USD. The nearest
  binary64 value is 500, so the comparison \<open>> 500\<close> fails and the request is issued.
\<close>

theorem rounded_amount_counterexample:
  "written_amount (str ''500.00000000000000001'') = Some (50000000000000000001 / 100000000000000000)
   \<and> spec_ceiling (str ''USD'') < 50000000000000000001 / 100000000000000000
   \<and> parseFloat (str ''500.00000000000000001'') = Fin 500
   \<and> calculate_click ascii_upper
       \<lparr>amount_field = str ''500.00000000000000001'', currency_field = str ''USD'',
        type_field = str ''sendmoney''\<rparr>
     = \<lparr>errors = [], warning = None, limit_exceeded = False,
        request = Some \<lparr>rq_action = ''ecocash_calculate'', rq_amount = str ''500.00000000000000001'',
                        rq_currency = str ''USD'', rq_transactionType = Code (str ''SENDMONEY'')\<rparr>\<rparr>"
  by code_simp

subsection \<open>The transaction type\<close>

lemma convertTransactionType_mapped:
  "convertTransactionType up (str ''sendmoney'') = Code (str ''SENDMONEY'')"
  "convertTransactionType up (str ''SENDMONEY'') = Code (str ''SENDMONEY'')"
  by (simp_all add: convertTransactionType_def typeMap_def)

lemma convertTransactionType_other:
  assumes "type \<noteq> str ''sendmoney''" "type \<noteq> str ''SENDMONEY''" "type \<notin> set object_prototype_keys"
  shows "convertTransactionType up type = Code (up type)"
  using assms by (simp add: convertTransactionType_def typeMap_def)

text \<open>
  Claim C6 says that \<open>convertTransactionType\<close> returns the mapped code for the types of
  its map and the uppercased input for every other type. For the two keys of the map and
  for every text that is not a member of \<open>Object.prototype\<close> this is what the two
  lemmas above show, whatever \<open>toUpperCase\<close> the browser has. For the type
  \<open>constructor\<close> the lookup in the object literal finds the inherited member, which
  is truthy, so the function returns that member and not the uppercased text
  (\<open>CONSTRUCTOR\<close>), and the request carries it.
\<close>

theorem convertTransactionType_inherited_key:
  "convertTransactionType up (str ''constructor'') = ProtoMember (str ''constructor'')
   \<and> convertTransactionType up (str ''constructor'') \<noteq> Code (up (str ''constructor''))
   \<and> ascii_upper (str ''constructor'') = str ''CONSTRUCTOR''
   \<and> request (calculate_click up
        \<lparr>amount_field = str ''50'', currency_field = str ''ZWG'', type_field = str ''constructor''\<rparr>)
      = Some \<lparr>rq_action = ''ecocash_calculate'', rq_amount = str ''50'', rq_currency = str ''ZWG'',
               rq_transactionType = ProtoMember (str ''constructor'')\<rparr>"
  by code_simp

text \<open>The example of the specification: \<open>sendmoney\<close> is submitted as \<open>SENDMONEY\<close>.\<close>

lemma sendmoney_request:
  "request (calculate_click up
     \<lparr>amount_field = str ''50'', currency_field = str ''ZWG'', type_field = str ''sendmoney''\<rparr>)
     = Some \<lparr>rq_action = ''ecocash_calculate'', rq_amount = str ''50'', rq_currency = str ''ZWG'',
             rq_transactionType = Code (str ''SENDMONEY'')\<rparr>"
  by code_simp

subsection \<open>The fee breakdown\<close>

lemma digits_of_digits: "0 \<le> n \<Longrightarrow> list_all is_digit (digits_of n) \<and> digits_of n \<noteq> []"
proof (induction n rule: digits_of.induct)
  case (1 n)
  show ?case
  proof (cases "n < 10")
    case True
    then show ?thesis using 1(2) by (simp add: digits_of.simps[of n] is_digit_def)
  next
    case False
    then have "0 \<le> n div 10" by simp
    then have "list_all is_digit (digits_of (n div 10)) \<and> digits_of (n div 10) \<noteq> []"
      using 1(1) False by simp
    moreover have "is_digit (48 + n mod 10)" by (simp add: is_digit_def)
    ultimately show ?thesis using False by (simp add: digits_of.simps[of n])
  qed
qed

lemma two_decimals_shape:
  assumes "list_all is_digit m" and "3 \<le> length m" and that: "sg = [] \<or> sg = str ''-''"
  shows "two_decimals (JStr (sg @ take (length m - 2) m @ str ''.'' @ drop (length m - 2) m))"
proof -
  let ?ip = "take (length m - 2) m" and ?fr = "drop (length m - 2) m"
  have dot: "str ''.'' = [46]" and minus: "str ''-'' = [45]" by (simp_all add: str_def)
  have nd: "\<not> is_digit 46" by (simp add: is_digit_def)
  have ip: "list_all is_digit ?ip" "?ip \<noteq> []"
    using assms by (auto simp: list_all_iff dest: in_set_takeD)
  have fr: "list_all is_digit ?fr" "length ?fr = 2"
    using assms by (auto simp: list_all_iff dest: in_set_dropD)
  have tw: "takeWhile is_digit (?ip @ [46] @ ?fr) = ?ip"
    using ip nd by (simp add: takeWhile_append2 list_all_iff)
  have dw: "dropWhile is_digit (?ip @ [46] @ ?fr) = [46] @ ?fr"
    using ip nd by (simp add: dropWhile_append2 list_all_iff)
  have hd_digit: "hd ?ip \<noteq> 45"
    using ip by (cases ?ip) (auto simp: is_digit_def)
  have strip: "(if take 1 (sg @ ?ip @ [46] @ ?fr) = [45] then drop 1 (sg @ ?ip @ [46] @ ?fr)
                else sg @ ?ip @ [46] @ ?fr) = ?ip @ [46] @ ?fr"
    using that ip hd_digit unfolding minus by (cases ?ip) auto
  show ?thesis
    unfolding two_decimals_def jsval.case Let_def dot minus strip tw dw
    using ip fr by simp
qed

lemma to_fixed2_two_decimals:
  assumes "finite_below_1e21 x"
  shows "two_decimals (to_fixed2 nt x)"
proof -
  from assms obtain r where x: "x = Fin r" and r: "\<bar>r\<bar> < 10 ^ 21"
    by (auto simp: finite_below_1e21_def split: jsnum.splits)
  define n where "n = \<lfloor>\<bar>r\<bar> * 100 + 1 / 2\<rfloor>"
  define m where "m = (if length (digits_of n) \<le> 2
      then replicate (3 - length (digits_of n)) 48 @ digits_of n else digits_of n)"
  have n0: "0 \<le> n" unfolding n_def by simp
  have z: "is_digit 48" by (simp add: is_digit_def)
  have md: "list_all is_digit m" using digits_of_digits[OF n0] z
    by (auto simp: m_def list_all_iff)
  have ml: "3 \<le> length m" by (auto simp: m_def)
  have "to_fixed2 nt x = JStr ((if r < 0 then str ''-'' else []) @ take (length m - 2) m
      @ str ''.'' @ drop (length m - 2) m)"
    using r by (simp add: x to_fixed2_def Let_def n_def m_def)
  then show ?thesis using two_decimals_shape[OF md ml, of "if r < 0 then str ''-'' else []"] by simp
qed

lemma to_fixed2_default: "to_fixed2 nt (parseFloat_val (JStr (str ''0.00''))) = JStr (str ''0.00'')"
  by code_simp

lemma js_or_undefined: "js_or JUndefined b = b"
  by (simp add: js_or_def)

text \<open>
  Claim C10, as the code has it. When the answer omits a field, \<open>showSuccess\<close> puts a
  default in its place: \<open>"0.00"\<close> for the service charge, the tax and the total
  tariff, the value of the amount field for the amount, and for the total the sum of
  the parsed amount and the parsed total tariff, written by \<open>toFixed(2)\<close>. Each of the
  five values shown is \<open>parseFloat(x).toFixed(2)\<close>, which has exactly two decimal
  places whenever \<open>parseFloat(x)\<close> is a finite number below \<open>10^21\<close> in magnitude;
  a value that does not parse is shown as \<open>NaN\<close> and an infinite one as
  \<open>Infinity\<close>.
\<close>

theorem showSuccess_defaults:
  "(serviceCharge r = JUndefined \<longrightarrow> shown_serviceCharge (showSuccess nt r c v) = JStr (str ''0.00''))
   \<and> (taxAmount r = JUndefined \<longrightarrow> shown_taxAmount (showSuccess nt r c v) = JStr (str ''0.00''))
   \<and> (totalTariff r = JUndefined \<longrightarrow> shown_totalTariff (showSuccess nt r c v) = JStr (str ''0.00''))
   \<and> (amount r = JUndefined \<longrightarrow> shown_amount (showSuccess nt r c v) = to_fixed2 nt (parseFloat v))
   \<and> (totalAmount r = JUndefined \<longrightarrow>
        shown_totalAmount (showSuccess nt r c v) =
          to_fixed2 nt (parseFloat_val (to_fixed2 nt (js_add
            (parseFloat_val (js_or (amount r) (JStr v)))
            (parseFloat_val (js_or (totalTariff r) (JStr (str ''0.00''))))))))
   \<and> shown_amount (showSuccess nt r c v) = to_fixed2 nt (parseFloat_val (js_or (amount r) (JStr v)))
   \<and> shown_serviceCharge (showSuccess nt r c v) =
        to_fixed2 nt (parseFloat_val (js_or (serviceCharge r) (JStr (str ''0.00''))))
   \<and> shown_taxAmount (showSuccess nt r c v) =
        to_fixed2 nt (parseFloat_val (js_or (taxAmount r) (JStr (str ''0.00''))))
   \<and> shown_totalTariff (showSuccess nt r c v) =
        to_fixed2 nt (parseFloat_val (js_or (totalTariff r) (JStr (str ''0.00''))))
   \<and> shown_totalAmount (showSuccess nt r c v) =
        to_fixed2 nt (parseFloat_val
          (if truthy (totalAmount r) then totalAmount r
           else to_fixed2 nt (js_add (parseFloat_val (js_or (amount r) (JStr v)))
                                     (parseFloat_val (js_or (totalTariff r) (JStr (str ''0.00'')))))))
   \<and> (\<forall>x. finite_below_1e21 x \<longrightarrow> two_decimals (to_fixed2 nt x))
   \<and> to_fixed2 nt NaN = JStr (str ''NaN'') \<and> to_fixed2 nt PosInf = JStr (str ''Infinity'')
   \<and> to_fixed2 nt NegInf = JStr (str ''-Infinity'')"
proof -
  have "to_fixed2 nt NaN = JStr (str ''NaN'') \<and> to_fixed2 nt PosInf = JStr (str ''Infinity'')
      \<and> to_fixed2 nt NegInf = JStr (str ''-Infinity'')"
    by (simp add: to_fixed2_def)
  then show ?thesis
    using to_fixed2_default[of nt]
    by (simp add: showSuccess_def Let_def js_or_undefined to_fixed2_two_decimals parseFloat_val_def)
qed

text \<open>
  Two answers. With a total tariff of 1.5 and the amount field at 50, the total is
  51.50. With a total tariff of 0.005 and the amount field at 7, the binary64 sum lies
  just below 7.005, so the total is 7.00.
\<close>

theorem showSuccess_defaults_witness:
  "showSuccess sample_number_text (all_omitted\<lparr>totalTariff := JStr (str ''1.5'')\<rparr>) (str ''USD'') (str ''50'') =
     \<lparr>shown_symbol = ''$'', shown_amount = JStr (str ''50.00''), shown_serviceCharge = JStr (str ''0.00''),
      shown_taxAmount = JStr (str ''0.00''), shown_totalTariff = JStr (str ''1.50''),
      shown_totalAmount = JStr (str ''51.50'')\<rparr>
   \<and> shown_totalAmount
        (showSuccess sample_number_text (all_omitted\<lparr>totalTariff := JStr (str ''0.005'')\<rparr>)
           (str ''USD'') (str '' 7 ''))
      = JStr (str ''7.00'')
   \<and> finite_below_1e21 (Fin (515 / 10)) \<and> two_decimals (to_fixed2 sample_number_text (Fin (515 / 10)))"
proof -
  have e: "showSuccess sample_number_text (all_omitted\<lparr>totalTariff := JStr (str ''1.5'')\<rparr>) (str ''USD'') (str ''50'') =
     \<lparr>shown_symbol = ''$'', shown_amount = JStr (str ''50.00''), shown_serviceCharge = JStr (str ''0.00''),
      shown_taxAmount = JStr (str ''0.00''), shown_totalTariff = JStr (str ''1.50''),
      shown_totalAmount = JStr (str ''51.50'')\<rparr>"
    by code_simp
  have g: "shown_totalAmount
        (showSuccess sample_number_text (all_omitted\<lparr>totalTariff := JStr (str ''0.005'')\<rparr>)
           (str ''USD'') (str '' 7 ''))
      = JStr (str ''7.00'')"
    by code_simp
  have f: "finite_below_1e21 (Fin (515 / 10))" by (simp add: finite_below_1e21_def)
  have "two_decimals (to_fixed2 sample_number_text (Fin (515 / 10)))"
    using showSuccess_defaults[of "all_omitted\<lparr>totalTariff := JStr (str ''1.5'')\<rparr>" sample_number_text
        "str ''USD''" "str ''50''"] f
    by blast
  then show ?thesis using e g f by blast
qed

text \<open>
  With every field omitted and the amount field empty when the answer arrives, the
  amount and the total are shown as \<open>NaN\<close>, which has no decimal places.
\<close>

theorem showSuccess_NaN_counterexample:
  "shown_amount (showSuccess sample_number_text all_omitted (str ''USD'') []) = JStr (str ''NaN'')
   \<and> shown_totalAmount (showSuccess sample_number_text all_omitted (str ''USD'') []) = JStr (str ''NaN'')
   \<and> \<not> two_decimals (JStr (str ''NaN''))"
  by code_simp

section \<open>Sorting with a comparison function\<close>

lemma insert_sorted_Inr:
  assumes "\<forall>y\<in>set ys. cmp x y = Inr (c x y)"
  shows "\<exists>zs. insert_sorted cmp x ys = Inr zs"
  using assms by (induction ys) auto

lemma insert_sorted_mset:
  "insert_sorted cmp x ys = Inr zs \<Longrightarrow> mset zs = add_mset x (mset ys)"
  by (induction ys arbitrary: zs) (auto split: sum.splits if_splits)




lemma array_sort_mset: "array_sort cmp xs = Inr ys \<Longrightarrow> mset ys = mset xs"
  by (induction xs arbitrary: ys) (auto split: sum.splits dest: insert_sorted_mset)

lemma array_sort_set: "array_sort cmp xs = Inr ys \<Longrightarrow> set ys = set xs"
proof -
  assume "array_sort cmp xs = Inr ys"
  then have "set_mset (mset ys) = set_mset (mset xs)" by (simp add: array_sort_mset)
  then show ?thesis by simp
qed

lemma array_sort_Inr:
  assumes "\<forall>a\<in>set xs. \<forall>b\<in>set xs. cmp a b = Inr (c a b)"
  shows "\<exists>ys. array_sort cmp xs = Inr ys"
  using assms
proof (induction xs)
  case Nil
  then show ?case by simp
next
  case (Cons x xs)
  then obtain ys where ys: "array_sort cmp xs = Inr ys" by auto
  have "\<forall>y\<in>set ys. cmp x y = Inr (c x y)"
    using Cons.prems array_sort_set[OF ys] by simp
  then obtain zs where "insert_sorted cmp x ys = Inr zs"
    using insert_sorted_Inr[where cmp = cmp and x = x and ys = ys and c = c] by auto
  then show ?case using ys by simp
qed








section \<open>Agent locator: the stored and the filtered agents\<close>

lemma valid_new_agents:
  "List.map_filter
     (\<lambda>e. case e of
            None \<Rightarrow> None
          | Some a \<Rightarrow>
              if truthy (agent_id a) \<and> truthy (representative a)
                 \<and> truthy (latitude a) \<and> truthy (longitude a)
                 \<and> \<not> list_ex (\<lambda>existingAgent. agent_id existingAgent = agent_id a) (agents st)
              then Some a else None)
     entries
   = accepted_agents (AgentArray entries) st"
  by (induction entries)
    (auto simp: accepted_agents_def map_filter_simps has_required_fields_def list_ex_iff image_iff
      split: option.splits)

lemma process_state:
  "fst (processAgentsData b p st) =
     (if accepted_agents p st = [] then st
      else st\<lparr>agents := agents st @ accepted_agents p st,
              filteredAgents := agents st @ accepted_agents p st\<rparr>)"
proof (cases p)
  case (AgentArray entries)
  then show ?thesis
    unfolding processAgentsData_def by (simp add: valid_new_agents Let_def split: option.splits)
qed (simp_all add: processAgentsData_def accepted_agents_def)

lemma process_agents:
  "agents (fst (processAgentsData b p st)) = agents st @ accepted_agents p st"
  by (simp add: process_state)

lemma process_filtered:
  "filteredAgents (fst (processAgentsData b p st)) =
     (if accepted_agents p st = [] then filteredAgents st else agents st @ accepted_agents p st)"
  by (simp add: process_state)

lemma process_isLoading: "isLoading (fst (processAgentsData b p st)) = isLoading st"
  by (simp add: process_state)

lemma accepted_required: "a \<in> set (accepted_agents p st) \<Longrightarrow> has_required_fields a"
  by (cases p) (auto simp: accepted_agents_def)

lemma accepted_fresh: "a \<in> set (accepted_agents p st) \<Longrightarrow> agent_id a \<notin> agent_id ` set (agents st)"
  by (cases p) (auto simp: accepted_agents_def)

lemma accepted_ids_distinct:
  assumes "distinct (offered_ids p)"
  shows "distinct (map agent_id (accepted_agents p st))"
proof (cases p)
  case (AgentArray entries)
  let ?xs = "List.map_filter (\<lambda>e. e) entries"
  have "distinct (map agent_id (filter has_required_fields ?xs))"
    using assms by (simp add: AgentArray offered_ids_def)
  then have "distinct (map agent_id
      (filter (\<lambda>a. agent_id a \<notin> agent_id ` set (agents st)) (filter has_required_fields ?xs)))"
    by (rule distinct_map_filter)
  then show ?thesis by (simp add: AgentArray accepted_agents_def)
qed (simp_all add: accepted_agents_def)

lemma process_keeps_distinct:
  assumes "distinct (map agent_id (agents st))" and "distinct (offered_ids p)"
  shows "distinct (map agent_id (agents (fst (processAgentsData b p st))))"
proof -
  have "agent_id ` set (agents st) \<inter> agent_id ` set (accepted_agents p st) = {}"
  proof (rule ccontr)
    assume "agent_id ` set (agents st) \<inter> agent_id ` set (accepted_agents p st) \<noteq> {}"
    then obtain i where i: "i \<in> agent_id ` set (agents st)" "i \<in> agent_id ` set (accepted_agents p st)"
      by blast
    from i(2) obtain a where "a \<in> set (accepted_agents p st)" "i = agent_id a" by blast
    then show False using i(1) accepted_fresh[of a p st] by simp
  qed
  moreover have "distinct (map agent_id (accepted_agents p st))"
    by (rule accepted_ids_distinct[OF assms(2)])
  ultimately show ?thesis
    using assms(1) unfolding process_agents map_append distinct_append set_map by blast
qed

lemma process_all_distinct:
  assumes "\<forall>p\<in>set ps. distinct (offered_ids p)" and "distinct (map agent_id (agents st))"
  shows "distinct (map agent_id (agents (process_all b ps st)))"
  using assms
proof (induction ps arbitrary: st)
  case Nil
  then show ?case by (simp add: process_all_def)
next
  case (Cons p ps)
  have "distinct (map agent_id (agents (fst (processAgentsData b p st))))"
    using Cons.prems by (simp add: process_keeps_distinct)
  then have "distinct (map agent_id (agents (process_all b ps (fst (processAgentsData b p st)))))"
    using Cons.IH Cons.prems(1) by simp
  then show ?case by (simp add: process_all_def)
qed

text \<open>Filtering with a test that can raise.\<close>

lemma array_filter_total:
  "\<forall>x\<in>set xs. test x = Inr (P x) \<Longrightarrow> array_filter test xs = Inr (filter P xs)"
  by (induction xs) auto

lemma array_filter_subset: "array_filter test xs = Inr ys \<Longrightarrow> set ys \<subseteq> set xs"
proof (induction xs arbitrary: ys)
  case Nil
  then show ?case by simp
next
  case (Cons x xs)
  from Cons.prems obtain keep zs where "array_filter test xs = Inr zs"
    and ys: "ys = (if keep then x # zs else zs)"
    by (auto split: sum.splits)
  then have "set zs \<subseteq> set xs" using Cons.IH by blast
  then show ?case using ys by auto
qed

text \<open>The handlers of search and filters, and the states the locator reaches.\<close>

lemma sortAgents_mset: "sortAgents lc sortBy xs = Inr ys \<Longrightarrow> mset ys = mset xs"
  by (auto simp: sortAgents_def dest: array_sort_mset split: if_splits)

lemma sortAgents_set: "sortAgents lc sortBy xs = Inr ys \<Longrightarrow> set ys = set xs"
proof -
  assume "sortAgents lc sortBy xs = Inr ys"
  then have "set_mset (mset ys) = set_mset (mset xs)" by (simp add: sortAgents_mset)
  then show ?thesis by simp
qed

lemma sortAgents_total:
  assumes "\<forall>a\<in>set xs. is_text (representative a)"
  shows "\<exists>ys. sortAgents lc sortBy xs = Inr ys"
proof (cases "sortBy = str ''distance''")
  case True
  have "\<forall>a\<in>set xs. \<forall>b\<in>set xs.
      distance_cmp a b = Inr ((\<lambda>a b. distance_or_default a - distance_or_default b) a b)"
    by (simp add: distance_cmp_def)
  then show ?thesis
    using True array_sort_Inr[where cmp = distance_cmp and xs = xs
        and c = "\<lambda>a b. distance_or_default a - distance_or_default b"]
    by (simp add: sortAgents_def)
next
  case False
  have "\<forall>a\<in>set xs. \<forall>b\<in>set xs.
      name_cmp lc a b = Inr ((\<lambda>a b. of_int (lc (name_of a) (representative b))) a b)"
    using assms by (auto simp: name_cmp_def name_of_def is_text_def split: jsval.splits)
  then show ?thesis
    using False array_sort_Inr[where cmp = "name_cmp lc" and xs = xs
        and c = "\<lambda>a b. of_int (lc (name_of a) (representative b))"]
    by (simp add: sortAgents_def)
qed

lemma applyCurrentFilters_keeps:
  "agents (fst (applyCurrentFilters b ctl st)) = agents st
   \<and> isLoading (fst (applyCurrentFilters b ctl st)) = isLoading st
   \<and> set (filteredAgents (fst (applyCurrentFilters b ctl st))) \<subseteq> set (agents st) \<union> set (filteredAgents st)"
  by (auto simp: applyCurrentFilters_def Let_def split: sum.splits
      dest!: array_filter_subset sortAgents_set)

lemma applyFilters_keeps:
  "agents (fst (applyFilters b ctl st)) = agents st
   \<and> isLoading (fst (applyFilters b ctl st)) = isLoading st
   \<and> set (filteredAgents (fst (applyFilters b ctl st))) \<subseteq> set (agents st) \<union> set (filteredAgents st)"
proof -
  have "fst (applyFilters b ctl st) = fst (applyCurrentFilters b ctl st)"
    by (simp add: applyFilters_def split: prod.splits option.splits)
  then show ?thesis using applyCurrentFilters_keeps[of b ctl st] by simp
qed

lemma performSearch_keeps:
  "agents (fst (performSearch b ctl st)) = agents st
   \<and> isLoading (fst (performSearch b ctl st)) = isLoading st
   \<and> set (filteredAgents (fst (performSearch b ctl st))) \<subseteq> set (agents st) \<union> set (filteredAgents st)"
proof (cases "if trim (toLowerCase b (agent_search ctl)) = [] then Inr (agents st)
               else array_filter (\<lambda>a. searchInAgent (toLowerCase b) a (trim (toLowerCase b (agent_search ctl))))
                      (agents st)")
  case (Inl e)
  then have "fst (performSearch b ctl st) = st" by (simp add: performSearch_def Let_def)
  then show ?thesis by simp
next
  case (Inr found)
  then have sub: "set found \<subseteq> set (agents st)"
    by (auto split: if_splits dest: array_filter_subset)
  have "fst (performSearch b ctl st) = fst (applyCurrentFilters b ctl (st\<lparr>filteredAgents := found\<rparr>))"
    using Inr by (simp add: performSearch_def Let_def split: prod.splits option.splits)
  then show ?thesis
    using applyCurrentFilters_keeps[of b ctl "st\<lparr>filteredAgents := found\<rparr>"] sub by auto
qed

lemma clearFilters_state: "fst (clearFilters b st) = st\<lparr>filteredAgents := agents st\<rparr>"
  by (simp add: clearFilters_def Let_def split: option.splits)

lemma load_try_state:
  "fst (load_try b res s) = s \<or> (\<exists>p. fst (load_try b res s) = fst (processAgentsData b p s))"
proof (cases res)
  case (Rejected status msg)
  then show ?thesis by (simp add: load_try_def)
next
  case (Resolved r)
  show ?thesis
  proof (cases r)
    case NoResponse
    then show ?thesis using Resolved by (simp add: load_try_def)
  next
    case (Response success data)
    show ?thesis
    proof (cases data)
      case None
      then show ?thesis using Resolved Response by (simp add: load_try_def)
    next
      case (Some d)
      show ?thesis
      proof (cases "success \<and> data_agents d \<noteq> Falsy")
        case True
        then have "fst (load_try b res s) = fst (processAgentsData b (data_agents d) s)"
          using Resolved Response Some by (simp add: load_try_def split: prod.splits)
        then show ?thesis by blast
      next
        case False
        then show ?thesis using Resolved Response Some by (auto simp: load_try_def)
      qed
    qed
  qed
qed

lemma loadAgents_state:
  "fst (loadAgents b res sl st) = st
   \<or> fst (loadAgents b res sl st) = st\<lparr>isLoading := False\<rparr>
   \<or> (\<exists>p. fst (loadAgents b res sl st) = (fst (processAgentsData b p (st\<lparr>isLoading := True\<rparr>)))\<lparr>isLoading := False\<rparr>)"
proof (cases "isLoading st")
  case True
  then show ?thesis by (simp add: loadAgents_def)
next
  case False
  have "fst (loadAgents b res sl st) = (fst (load_try b res (st\<lparr>isLoading := True\<rparr>)))\<lparr>isLoading := False\<rparr>"
    using False by (simp add: loadAgents_def Let_def split: prod.splits)
  then show ?thesis using load_try_state[of b res "st\<lparr>isLoading := True\<rparr>"] by auto
qed

lemma reachable_invariant:
  assumes "reachable b st"
  shows "(\<forall>a\<in>set (agents st). has_required_fields a) \<and> set (filteredAgents st) \<subseteq> set (agents st)"
  using assms
proof (induction rule: reachable.induct)
  case init
  then show ?case by (simp add: initial_state_def)
next
  case (load st res showLoading)
  have step: "(\<forall>a\<in>set (agents (fst (processAgentsData b p s))). has_required_fields a)
      \<and> set (filteredAgents (fst (processAgentsData b p s))) \<subseteq> set (agents (fst (processAgentsData b p s)))"
    if "(\<forall>a\<in>set (agents s). has_required_fields a) \<and> set (filteredAgents s) \<subseteq> set (agents s)" for p s
    using that accepted_required[of _ p s] by (auto simp: process_agents process_filtered)
  from loadAgents_state[of b res showLoading st] show ?case
  proof (elim disjE exE)
    assume "fst (loadAgents b res showLoading st) = st"
    then show ?thesis using load.IH by simp
  next
    assume "fst (loadAgents b res showLoading st) = st\<lparr>isLoading := False\<rparr>"
    then show ?thesis using load.IH by simp
  next
    fix p
    assume e: "fst (loadAgents b res showLoading st) =
      (fst (processAgentsData b p (st\<lparr>isLoading := True\<rparr>)))\<lparr>isLoading := False\<rparr>"
    have "(\<forall>a\<in>set (agents (st\<lparr>isLoading := True\<rparr>)). has_required_fields a)
      \<and> set (filteredAgents (st\<lparr>isLoading := True\<rparr>)) \<subseteq> set (agents (st\<lparr>isLoading := True\<rparr>))"
      using load.IH by simp
    from step[OF this, of p] show ?thesis by (simp add: e)
  qed
next
  case (process st p)
  then show ?case using accepted_required[of _ p st]
    by (auto simp: process_agents process_filtered)
next
  case (search st ctl)
  then show ?case using performSearch_keeps[of b ctl st] by auto
next
  case (filters st ctl)
  then show ?case using applyFilters_keeps[of b ctl st] by auto
next
  case (clear st)
  then show ?case by (simp add: clearFilters_state)
qed

text \<open>Searching agents whose search fields are texts or falsy.\<close>

lemma some_field_text:
  "list_all (\<lambda>v. is_text v \<or> \<not> truthy v) fs \<Longrightarrow>
     some_field lower t fs = Inr (list_ex (field_contains lower t) fs)"
proof (induction fs)
  case Nil
  then show ?case by simp
next
  case (Cons v fs)
  then show ?case
    by (cases v) (auto simp: field_contains_def is_text_def)
qed

lemma searchInAgent_text:
  "text_fields a \<Longrightarrow>
     searchInAgent lower a t = Inr (list_ex (field_contains lower t) (search_fields a))"
  using some_field_text[of "search_fields a" lower t]
  by (simp add: searchInAgent_def text_fields_def search_fields_def)

lemma required_text_name:
  "has_required_fields a \<Longrightarrow> text_fields a \<Longrightarrow> is_text (representative a)"
  by (auto simp: has_required_fields_def text_fields_def search_fields_def)

lemma map_filter_empty: "(\<forall>x\<in>set xs. f x = None) \<Longrightarrow> List.map_filter f xs = []"
  by (induction xs) (simp_all add: map_filter_simps)

lemma updateDisplay_text:
  "\<forall>a\<in>set (filteredAgents st). is_text (representative a) \<Longrightarrow>
     updateDisplay b st = draws b (filteredAgents st)"
proof -
  assume "\<forall>a\<in>set (filteredAgents st). is_text (representative a)"
  then have "\<forall>a\<in>set (filteredAgents st). getInitials (representative a) = None"
    by (simp add: getInitials_def)
  then have "List.map_filter (\<lambda>a. getInitials (representative a)) (filteredAgents st) = []"
    by (rule map_filter_empty)
  then show ?thesis by (simp add: updateDisplay_def)
qed


lemma applyCurrentFilters_text:
  assumes fields: "\<forall>a\<in>set (agents st). text_fields a"
    and names: "\<forall>a\<in>set (agents st). is_text (representative a)"
  shows "\<exists>ys. applyCurrentFilters b ctl st = (st\<lparr>filteredAgents := ys\<rparr>, None)
     \<and> mset ys = mset (filter (passes_filters b ctl) (agents st))"
proof -
  let ?t = "trim (toLowerCase b (agent_search ctl))"
  let ?test = "\<lambda>a. case (if ?t = [] then Inr True else searchInAgent (toLowerCase b) a ?t) of
                        Inl e \<Rightarrow> Inl e
                      | Inr matchesSearch \<Rightarrow>
                          Inr (matchesSearch
                               \<and> (region_filter ctl = [] \<or> province a = JStr (region_filter ctl))
                               \<and> (area_filter ctl = [] \<or> city a = JStr (area_filter ctl)))"
  have "\<forall>a\<in>set (agents st). ?test a = Inr (passes_filters b ctl a)"
    using fields by (auto simp: searchInAgent_text passes_filters_def search_term_def)
  then have f: "array_filter ?test (agents st) = Inr (filter (passes_filters b ctl) (agents st))"
    by (rule array_filter_total)
  have "\<forall>a\<in>set (filter (passes_filters b ctl) (agents st)). is_text (representative a)"
    using names by simp
  then obtain ys where ys: "sortAgents (localeCompare b) (sort_filter ctl)
      (filter (passes_filters b ctl) (agents st)) = Inr ys"
    using sortAgents_total by blast
  have "applyCurrentFilters b ctl st = (st\<lparr>filteredAgents := ys\<rparr>, None)"
    unfolding applyCurrentFilters_def Let_def f using ys by simp
  then show ?thesis using sortAgents_mset[OF ys] by blast
qed

lemma performSearch_text:
  assumes fields: "\<forall>a\<in>set (agents st). text_fields a"
    and names: "\<forall>a\<in>set (agents st). is_text (representative a)"
  shows "\<exists>ys ev. performSearch b ctl st = (st\<lparr>filteredAgents := ys\<rparr>, ev, draws b ys)
     \<and> mset ys = mset (filter (passes_filters b ctl) (agents st))"
proof -
  let ?t = "trim (toLowerCase b (agent_search ctl))"
  have "\<forall>a\<in>set (agents st). searchInAgent (toLowerCase b) a ?t
      = Inr (list_ex (field_contains (toLowerCase b) ?t) (search_fields a))"
    using fields by (simp add: searchInAgent_text)
  then have "array_filter (\<lambda>a. searchInAgent (toLowerCase b) a ?t) (agents st)
      = Inr (filter (\<lambda>a. list_ex (field_contains (toLowerCase b) ?t) (search_fields a)) (agents st))"
    by (rule array_filter_total)
  then obtain found where found:
    "(if ?t = [] then Inr (agents st)
      else array_filter (\<lambda>a. searchInAgent (toLowerCase b) a ?t) (agents st)) = Inr found"
    by (cases "?t = []") auto
  obtain ys where a: "applyCurrentFilters b ctl (st\<lparr>filteredAgents := found\<rparr>)
        = (st\<lparr>filteredAgents := found, filteredAgents := ys\<rparr>, None)"
    and m: "mset ys = mset (filter (passes_filters b ctl) (agents st))"
    using applyCurrentFilters_text[of "st\<lparr>filteredAgents := found\<rparr>" b ctl] fields names by auto
  have "set ys \<subseteq> set (agents st)"
  proof -
    have "set_mset (mset ys) = set_mset (mset (filter (passes_filters b ctl) (agents st)))"
      using m by simp
    then show ?thesis by auto
  qed
  then have "\<forall>a\<in>set (filteredAgents (st\<lparr>filteredAgents := ys\<rparr>)). is_text (representative a)"
    using names by auto
  then have u: "updateDisplay b (st\<lparr>filteredAgents := ys\<rparr>) = draws b ys"
    using updateDisplay_text[of "st\<lparr>filteredAgents := ys\<rparr>" b] by simp
  have "\<exists>ev. performSearch b ctl st = (st\<lparr>filteredAgents := ys\<rparr>, ev, draws b ys)"
    unfolding performSearch_def Let_def found using a u
    by (cases "draws b ys") simp_all
  then show ?thesis using m by blast
qed

lemma applyFilters_text:
  assumes fields: "\<forall>a\<in>set (agents st). text_fields a"
    and names: "\<forall>a\<in>set (agents st). is_text (representative a)"
  shows "\<exists>ys ev. applyFilters b ctl st = (st\<lparr>filteredAgents := ys\<rparr>, ev, draws b ys)
     \<and> mset ys = mset (filter (passes_filters b ctl) (agents st))"
proof -
  obtain ys where a: "applyCurrentFilters b ctl st = (st\<lparr>filteredAgents := ys\<rparr>, None)"
    and m: "mset ys = mset (filter (passes_filters b ctl) (agents st))"
    using applyCurrentFilters_text[OF fields names, of b ctl] by auto
  have "set ys \<subseteq> set (agents st)"
  proof -
    have "set_mset (mset ys) = set_mset (mset (filter (passes_filters b ctl) (agents st)))"
      using m by simp
    then show ?thesis by auto
  qed
  then have "\<forall>a\<in>set (filteredAgents (st\<lparr>filteredAgents := ys\<rparr>)). is_text (representative a)"
    using names by auto
  then have u: "updateDisplay b (st\<lparr>filteredAgents := ys\<rparr>) = draws b ys"
    using updateDisplay_text[of "st\<lparr>filteredAgents := ys\<rparr>" b] by simp
  have "\<exists>ev. applyFilters b ctl st = (st\<lparr>filteredAgents := ys\<rparr>, ev, draws b ys)"
    unfolding applyFilters_def a using u by (cases "draws b ys") simp_all
  then show ?thesis using m by blast
qed

lemma handlers_raise_nothing:
  assumes "reachable b st" and fields: "\<forall>a\<in>set (agents st). text_fields a"
  shows "snd (snd (performSearch b ctl st)) = draws b (filteredAgents (fst (performSearch b ctl st)))
     \<and> snd (snd (applyFilters b ctl st)) = draws b (filteredAgents (fst (applyFilters b ctl st)))
     \<and> agents (fst (performSearch b ctl st)) = agents st
     \<and> (\<forall>x. x \<in> set (filteredAgents (fst (performSearch b ctl st))) \<longleftrightarrow>
            x \<in> set (agents st) \<and> passes_filters b ctl x)"
proof -
  have names: "\<forall>a\<in>set (agents st). is_text (representative a)"
    using reachable_invariant[OF assms(1)] fields required_text_name by blast
  obtain ys ev where p: "performSearch b ctl st = (st\<lparr>filteredAgents := ys\<rparr>, ev, draws b ys)"
    and m: "mset ys = mset (filter (passes_filters b ctl) (agents st))"
    using performSearch_text[OF fields names, of b ctl] by blast
  obtain zs ev' where f: "applyFilters b ctl st = (st\<lparr>filteredAgents := zs\<rparr>, ev', draws b zs)"
    using applyFilters_text[OF fields names, of b ctl] by blast
  have "set_mset (mset ys) = set_mset (mset (filter (passes_filters b ctl) (agents st)))"
    using m by simp
  then have "\<forall>x. x \<in> set ys \<longleftrightarrow> x \<in> set (agents st) \<and> passes_filters b ctl x" by auto
  then show ?thesis by (simp add: p f)
qed

subsection \<open>Ids across loads\<close>

text \<open>
  Claim C2, as the code has it. \<open>processAgentsData\<close> appends the accepted agents of an
  answer to the stored ones, and none of them has an id that is already stored: an id is
  never added again by a later load. When no single answer offers an id twice, the
  stored agents have pairwise different ids after any number of answers.
\<close>

theorem ids_unique_across_loads:
  "((\<forall>p\<in>set ps. distinct (offered_ids p)) \<longrightarrow>
      distinct (map agent_id (agents (process_all b ps initial_state))))
   \<and> agents (fst (processAgentsData b p st)) = agents st @ accepted_agents p st
   \<and> (\<forall>a\<in>set (accepted_agents p st). agent_id a \<notin> agent_id ` set (agents st))"
proof -
  have "distinct (map agent_id (agents initial_state))" by (simp add: initial_state_def)
  then have "(\<forall>p\<in>set ps. distinct (offered_ids p)) \<longrightarrow>
      distinct (map agent_id (agents (process_all b ps initial_state)))"
    using process_all_distinct[of ps initial_state b] by blast
  moreover have "\<forall>a\<in>set (accepted_agents p st). agent_id a \<notin> agent_id ` set (agents st)"
    using accepted_fresh by blast
  ultimately show ?thesis using process_agents[of b p st] by blast
qed

theorem ids_unique_across_loads_witness:
  "map agent_id (agents (process_all sample_browser
      [AgentArray [Some (sample_agent (JNum 1) ''Amai Shop'' None), Some (sample_agent (JNum 2) ''Baba Store'' None)],
       AgentArray [Some (sample_agent (JNum 1) ''Amai Shop'' None), Some (sample_agent (JStr (str ''1'')) ''Corner Kiosk'' None)]]
      initial_state)) = [JNum 1, JNum 2, JStr (str ''1'')]
   \<and> distinct (map agent_id (agents (process_all sample_browser
      [AgentArray [Some (sample_agent (JNum 1) ''Amai Shop'' None), Some (sample_agent (JNum 2) ''Baba Store'' None)],
       AgentArray [Some (sample_agent (JNum 1) ''Amai Shop'' None), Some (sample_agent (JStr (str ''1'')) ''Corner Kiosk'' None)]]
      initial_state)))"
proof -
  let ?ps = "[AgentArray [Some (sample_agent (JNum 1) ''Amai Shop'' None), Some (sample_agent (JNum 2) ''Baba Store'' None)],
       AgentArray [Some (sample_agent (JNum 1) ''Amai Shop'' None), Some (sample_agent (JStr (str ''1'')) ''Corner Kiosk'' None)]]"
  have h: "\<forall>p\<in>set ?ps. distinct (offered_ids p)" by code_simp
  have e: "map agent_id (agents (process_all sample_browser ?ps initial_state)) = [JNum 1, JNum 2, JStr (str ''1'')]"
    by code_simp
  show ?thesis using ids_unique_across_loads[where ps = ?ps and b = sample_browser] h e by blast
qed

text \<open>
  The filter compares a new entry with the stored agents only, not with the other entries
  of the same answer: one answer that lists the id 7 twice stores it twice.
\<close>

theorem duplicate_in_one_answer_counterexample:
  "map agent_id (agents (process_all sample_browser
      [AgentArray [Some (sample_agent (JNum 7) ''Amai Shop'' None), Some (sample_agent (JNum 7) ''Amai Shop'' None)]]
      initial_state)) = [JNum 7, JNum 7]"
  by code_simp

subsection \<open>Sorting the filtered agents\<close>







subsection \<open>Searching\<close>




subsection \<open>Failing loads\<close>

lemma load_error_message_prefix: "take 23 (load_error_message err) = str ''Failed to load agents. ''"
  by (simp add: load_error_message_def str_def)

lemma fails_before_storing_try:
  assumes "fails_before_storing res"
  shows "\<exists>err. load_try b res s = (s, [], Some err)"
  using assms
  by (auto simp: fails_before_storing_def load_try_def
      split: ajax_result.splits response.splits option.splits)

lemma non_array_try:
  assumes "non_array_payload res"
  shows "load_try b res s = (s, [ConsoleWarn ''Invalid agents data received''], None)"
  using assms
  by (auto simp: non_array_payload_def load_try_def processAgentsData_def
      split: ajax_result.splits response.splits option.splits)

lemma load_error_shown:
  assumes "\<not> isLoading st" and "load_try b res (st\<lparr>isLoading := True\<rparr>) = (st\<lparr>isLoading := True\<rparr>, [], Some err)"
  shows "fst (loadAgents b res sl st) = st\<lparr>isLoading := False\<rparr>
     \<and> error_messages (snd (loadAgents b res sl st)) = [load_error_message err]"
  using assms by (simp add: loadAgents_def error_messages_def map_filter_simps List.map_filter_def)

lemma load_silent:
  assumes "\<not> isLoading st"
    and "load_try b res (st\<lparr>isLoading := True\<rparr>)
           = (st\<lparr>isLoading := True\<rparr>, [ConsoleWarn ''Invalid agents data received''], None)"
  shows "fst (loadAgents b res sl st) = st\<lparr>isLoading := False\<rparr>
     \<and> error_messages (snd (loadAgents b res sl st)) = []
     \<and> ConsoleWarn ''Invalid agents data received'' \<in> set (snd (loadAgents b res sl st))"
  using assms by (simp add: loadAgents_def error_messages_def List.map_filter_def)

text \<open>
  Claim C8, as the code has it. A load that fails before any agent is stored (the request
  is rejected, the answer is \<open>null\<close> or not a success, or its \<open>data\<close> or
  \<open>agents\<close> are missing or falsy) is caught in \<open>loadAgents\<close>: one error message
  that starts with \<open>Failed to load agents.\<close> is shown, the stored and the filtered
  agents are left as they were, and \<open>isLoading\<close> is reset. For a successful answer
  whose \<open>agents\<close> is truthy and not an array, \<open>processAgentsData\<close> writes a warning
  to the console and returns: the two lists are left as they were, \<open>isLoading\<close> is
  reset, and no message is shown.
\<close>

theorem failing_load_leaves_lists:
  assumes "\<not> isLoading st" and "fails_before_storing res \<or> non_array_payload res"
  shows "agents (fst (loadAgents b res sl st)) = agents st
     \<and> filteredAgents (fst (loadAgents b res sl st)) = filteredAgents st
     \<and> \<not> isLoading (fst (loadAgents b res sl st))
     \<and> (fails_before_storing res \<longrightarrow>
           (\<exists>m. error_messages (snd (loadAgents b res sl st)) = [m]
                \<and> take 23 m = str ''Failed to load agents. ''))
     \<and> (non_array_payload res \<longrightarrow>
           error_messages (snd (loadAgents b res sl st)) = []
           \<and> ConsoleWarn ''Invalid agents data received'' \<in> set (snd (loadAgents b res sl st)))"
proof (cases "non_array_payload res")
  case True
  then have nf: "\<not> fails_before_storing res"
    by (auto simp: non_array_payload_def fails_before_storing_def
        split: ajax_result.splits response.splits option.splits)
  from load_silent[OF assms(1) non_array_try[OF True], where sl = sl] show ?thesis using True nf by simp
next
  case False
  then have f: "fails_before_storing res" using assms(2) by simp
  then obtain err where "load_try b res (st\<lparr>isLoading := True\<rparr>) = (st\<lparr>isLoading := True\<rparr>, [], Some err)"
    using fails_before_storing_try by blast
  from load_error_shown[OF assms(1) this, where sl = sl] show ?thesis
    using False load_error_message_prefix[of err] by auto
qed

theorem failing_load_leaves_lists_witness:
  "error_messages (snd (loadAgents sample_browser (Rejected 0 None) True initial_state))
     = [str ''Failed to load agents. Please check your internet connection.'']
   \<and> agents (fst (loadAgents sample_browser (Rejected 0 None) True initial_state)) = []
   \<and> error_messages (snd (loadAgents sample_browser
        (Resolved (Response True (Some \<lparr>data_agents = Falsy, data_message = Some (str ''No agents'')\<rparr>)))
        True initial_state))
     = [str ''Failed to load agents. Please try again later.'']"
proof -
  have n: "\<not> isLoading initial_state" by (simp add: initial_state_def)
  have f1: "fails_before_storing (Rejected 0 None) \<or> non_array_payload (Rejected 0 None)"
    by (simp add: fails_before_storing_def)
  have e1: "error_messages (snd (loadAgents sample_browser (Rejected 0 None) True initial_state))
     = [str ''Failed to load agents. Please check your internet connection.'']"
    by code_simp
  have e2: "error_messages (snd (loadAgents sample_browser
        (Resolved (Response True (Some \<lparr>data_agents = Falsy, data_message = Some (str ''No agents'')\<rparr>)))
        True initial_state))
     = [str ''Failed to load agents. Please try again later.'']"
    by code_simp
  have "agents (fst (loadAgents sample_browser (Rejected 0 None) True initial_state)) = agents initial_state"
    using failing_load_leaves_lists[OF n f1, where b = sample_browser and sl = True] by blast
  then show ?thesis using e1 e2 by (simp add: initial_state_def)
qed

text \<open>
  Two loads that the claim covers and the code treats otherwise. A successful answer
  whose \<open>agents\<close> is an object and not an array: the events of the load are the
  loading indicator and a console warning, and no error message. A successful answer with
  one agent whose name is the number 7: the agent is stored, then drawing its card raises
  in \<open>getInitials\<close>, and the error message is shown with the agent in the list.
\<close>

theorem load_failures_counterexample:
  "snd (loadAgents sample_browser
          (Resolved (Response True (Some \<lparr>data_agents = NonArray, data_message = None\<rparr>)))
          True initial_state)
     = [ShowLoading True, ConsoleWarn ''Invalid agents data received'', ShowLoading False]
   \<and> error_messages (snd (loadAgents sample_browser
        (Resolved (Response True (Some \<lparr>data_agents = NonArray, data_message = None\<rparr>))) True initial_state))
     = []
   \<and> error_messages (snd (loadAgents sample_browser
        (Resolved (Response True (Some
           \<lparr>data_agents = AgentArray [Some ((sample_agent (JNum 1) ''Amai Shop'' None)\<lparr>representative := JNum 7\<rparr>)],
            data_message = None\<rparr>)))
        True initial_state))
     = [str ''Failed to load agents. Please try again later.'']
   \<and> agents (fst (loadAgents sample_browser
        (Resolved (Response True (Some
           \<lparr>data_agents = AgentArray [Some ((sample_agent (JNum 1) ''Amai Shop'' None)\<lparr>representative := JNum 7\<rparr>)],
            data_message = None\<rparr>)))
        True initial_state))
     = [(sample_agent (JNum 1) ''Amai Shop'' None)\<lparr>representative := JNum 7\<rparr>]
   \<and> agents initial_state = []"
  by code_simp

subsection \<open>Required fields\<close>

text \<open>
  Claim C9. In every state the locator can reach, each stored agent and each filtered
  agent has a truthy id, name, latitude and longitude. \<open>processAgentsData\<close> appends
  exactly the accepted entries, all of which have the four fields: an entry that is
  \<open>null\<close>, lacks a field or has the latitude or longitude 0 is dropped. The
  handlers of search and filters therefore run on such agents only; when the search
  fields of the stored agents are texts or falsy, they raise nothing of their own.
\<close>

theorem stored_agents_have_required_fields:
  assumes "reachable b st"
  shows "(\<forall>a\<in>set (agents st). has_required_fields a)
     \<and> (\<forall>a\<in>set (filteredAgents st). has_required_fields a)
     \<and> agents (fst (processAgentsData b p st)) = agents st @ accepted_agents p st
     \<and> (\<forall>a\<in>set (accepted_agents p st). has_required_fields a)
     \<and> ((\<forall>a\<in>set (agents st). text_fields a) \<longrightarrow>
          snd (snd (performSearch b ctl st)) = draws b (filteredAgents (fst (performSearch b ctl st)))
          \<and> snd (snd (applyFilters b ctl st)) = draws b (filteredAgents (fst (applyFilters b ctl st))))"
proof -
  have inv: "(\<forall>a\<in>set (agents st). has_required_fields a) \<and> set (filteredAgents st) \<subseteq> set (agents st)"
    by (rule reachable_invariant[OF assms])
  have "\<forall>a\<in>set (accepted_agents p st). has_required_fields a"
    using accepted_required by blast
  moreover have "(\<forall>a\<in>set (agents st). text_fields a) \<longrightarrow>
          snd (snd (performSearch b ctl st)) = draws b (filteredAgents (fst (performSearch b ctl st)))
          \<and> snd (snd (applyFilters b ctl st)) = draws b (filteredAgents (fst (applyFilters b ctl st)))"
    using handlers_raise_nothing[OF assms, of ctl] by blast
  ultimately show ?thesis
    using inv process_agents[of b p st] by blast
qed

theorem stored_agents_have_required_fields_witness:
  "agents (fst (processAgentsData sample_browser
      (AgentArray [Some (sample_agent (JNum 1) ''Amai Shop'' None), None,
                   Some ((sample_agent (JNum 2) ''Baba Store'' None)\<lparr>latitude := JNum 0\<rparr>),
                   Some ((sample_agent (JNum 3) ''Corner Kiosk'' None)\<lparr>representative := JUndefined\<rparr>),
                   Some (sample_agent (JNum 0) ''Dube Traders'' None)])
      initial_state)) = [sample_agent (JNum 1) ''Amai Shop'' None]
   \<and> has_required_fields (sample_agent (JNum 1) ''Amai Shop'' None)"
proof -
  let ?p = "AgentArray [Some (sample_agent (JNum 1) ''Amai Shop'' None), None,
                   Some ((sample_agent (JNum 2) ''Baba Store'' None)\<lparr>latitude := JNum 0\<rparr>),
                   Some ((sample_agent (JNum 3) ''Corner Kiosk'' None)\<lparr>representative := JUndefined\<rparr>),
                   Some (sample_agent (JNum 0) ''Dube Traders'' None)]"
  have r: "reachable sample_browser (fst (processAgentsData sample_browser ?p initial_state))"
    by (rule reachable.process[OF reachable.init])
  have e: "agents (fst (processAgentsData sample_browser ?p initial_state)) = [sample_agent (JNum 1) ''Amai Shop'' None]"
    by code_simp
  show ?thesis
    using stored_agents_have_required_fields[OF r] e by simp
qed

end
